theory Spec2Isabelle
  imports Complex_Main "HOL-Library.Word" "HOL-Library.Log_Nat"
begin

unbundle bit_operations_syntax

section \<open>Data model\<close>

text \<open>
  The image-processing helpers of \<^verbatim>\<open>util/utils.go\<close> work on values of Go's
  \<^verbatim>\<open>image.Image\<close> interface. The embedding keeps the three things the code asks of
  such a value: its bounds, and for a point the four \<^verbatim>\<open>uint32\<close> results of
  \<^verbatim>\<open>At(x, y).RGBA()\<close>.

  Machine integers are words of the declared width (\<^verbatim>\<open>uint8\<close>, \<^verbatim>\<open>uint32\<close>,
  \<^verbatim>\<open>uint64\<close>). Coordinates are Go \<^verbatim>\<open>int\<close>s; they are modelled as unbounded
  integers, the size check of \<^verbatim>\<open>image.NewRGBA\<close> below being the one place where
  the 64-bit width of \<^verbatim>\<open>int\<close> decides the control flow.

  Floating-point values are modelled by the real numbers they denote, and every
  floating-point operation rounds its exact result to the nearest value of its
  precision, ties to even (\<open>ieee_round\<close> below): 24 significant bits for
  \<^verbatim>\<open>float32\<close>, 53 for \<^verbatim>\<open>float64\<close>. The exponent range is taken as unbounded;
  the values these functions compute from image sizes and channel values stay far from
  the overflow and underflow thresholds.
\<close>

type_synonym uint8 = "8 word"
type_synonym uint32 = "32 word"
type_synonym uint64 = "64 word"

text \<open>\<^verbatim>\<open>ScalingAlgorithm\<close>: the enumeration of \<^verbatim>\<open>util/utils.go\<close>.\<close>

datatype ScalingAlgorithm = Bilinear | NearestNeighbor

text \<open>The resampling filters of the \<^verbatim>\<open>imaging\<close> package that the code selects.\<close>

datatype ResampleFilter = imaging_Linear | imaging_NearestNeighbor

text \<open>The interpolation functions of the \<^verbatim>\<open>resize\<close> package that the code selects.\<close>

datatype InterpolationFunction = resize_Bilinear | resize_NearestNeighbor

definition ImageMaxWidth :: int where
  "ImageMaxWidth = 400"

definition ImageMaxHeight :: int where
  "ImageMaxHeight = 400"

subsection \<open>Rectangles (\<^verbatim>\<open>image.Rectangle\<close>)\<close>

record Rectangle =
  MinX :: int
  MinY :: int
  MaxX :: int
  MaxY :: int

definition Dx :: "Rectangle \<Rightarrow> int" where
  "Dx r = MaxX r - MinX r"

definition Dy :: "Rectangle \<Rightarrow> int" where
  "Dy r = MaxY r - MinY r"

definition Rect_Empty :: "Rectangle \<Rightarrow> bool" where
  "Rect_Empty r \<longleftrightarrow> MinX r \<ge> MaxX r \<or> MinY r \<ge> MaxY r"

text \<open>\<^verbatim>\<open>Rectangle.Eq\<close>: equal, or both empty.\<close>

definition Rect_Eq :: "Rectangle \<Rightarrow> Rectangle \<Rightarrow> bool" where
  "Rect_Eq r s \<longleftrightarrow> r = s \<or> (Rect_Empty r \<and> Rect_Empty s)"

text \<open>\<^verbatim>\<open>Point.In\<close>.\<close>

definition Point_In :: "int \<times> int \<Rightarrow> Rectangle \<Rightarrow> bool" where
  "Point_In p r \<longleftrightarrow> MinX r \<le> fst p \<and> fst p < MaxX r \<and> MinY r \<le> snd p \<and> snd p < MaxY r"

text \<open>\<^verbatim>\<open>image.Rect\<close>: the constructor that orders its corners.\<close>

definition image_Rect :: "int \<Rightarrow> int \<Rightarrow> int \<Rightarrow> int \<Rightarrow> Rectangle" where
  "image_Rect x0 y0 x1 y1 =
     \<lparr>MinX = min x0 x1, MinY = min y0 y1, MaxX = max x0 x1, MaxY = max y0 y1\<rparr>"

definition ZR :: Rectangle where
  "ZR = \<lparr>MinX = 0, MinY = 0, MaxX = 0, MaxY = 0\<rparr>"

text \<open>\<^verbatim>\<open>Rectangle.Intersect\<close>: the largest common rectangle, \<^verbatim>\<open>ZR\<close> when empty.\<close>

definition Rect_Intersect :: "Rectangle \<Rightarrow> Rectangle \<Rightarrow> Rectangle" where
  "Rect_Intersect r s =
     (let r' = \<lparr>MinX = max (MinX r) (MinX s), MinY = max (MinY r) (MinY s),
                MaxX = min (MaxX r) (MaxX s), MaxY = min (MaxY r) (MaxY s)\<rparr>
      in if Rect_Empty r' then ZR else r')"

text \<open>\<^verbatim>\<open>Rectangle.Add\<close>: translation by a point.\<close>

definition Rect_Add :: "Rectangle \<Rightarrow> int \<times> int \<Rightarrow> Rectangle" where
  "Rect_Add r p =
     \<lparr>MinX = MinX r + fst p, MinY = MinY r + snd p,
      MaxX = MaxX r + fst p, MaxY = MaxY r + snd p\<rparr>"

subsection \<open>Colours and images\<close>

text \<open>
  \<open>rgba32\<close> is the result of \<^verbatim>\<open>Color.RGBA()\<close>: four \<^verbatim>\<open>uint32\<close> values. The
  interface's contract is that each lies in \<open>[0, 0xffff]\<close>; \<open>valid_color\<close> states it.
  \<open>rgba8\<close> is a \<^verbatim>\<open>color.RGBA\<close> value, four \<^verbatim>\<open>uint8\<close> fields R, G, B, A.
\<close>

type_synonym rgba32 = "uint32 \<times> uint32 \<times> uint32 \<times> uint32"
type_synonym rgba8 = "uint8 \<times> uint8 \<times> uint8 \<times> uint8"

definition valid_color :: "rgba32 \<Rightarrow> bool" where
  "valid_color c \<longleftrightarrow>
     (case c of (r, g, b, a) \<Rightarrow> r \<le> 0xffff \<and> g \<le> 0xffff \<and> b \<le> 0xffff \<and> a \<le> 0xffff)"

record Image =
  Bounds :: Rectangle
  At :: "int \<Rightarrow> int \<Rightarrow> rgba32"

text \<open>
  \<^verbatim>\<open>*image.RGBA\<close>: a rectangle and one \<^verbatim>\<open>color.RGBA\<close> per point. The byte
  slice \<^verbatim>\<open>Pix\<close> of the Go type is addressed here by coordinates.
\<close>

record RGBAImage =
  Rect :: Rectangle
  Pix :: "int \<times> int \<Rightarrow> rgba8"

datatype panic = Panic

text \<open>
  \<^verbatim>\<open>mul3NonNeg\<close> and \<^verbatim>\<open>image.NewRGBA\<close> of the standard library: the product
  of the three factors, or \<open>-1\<close> when a factor is negative or a step of the product
  leaves the range of a 64-bit \<^verbatim>\<open>int\<close>; \<^verbatim>\<open>NewRGBA\<close> panics on \<open>-1\<close> and otherwise
  returns an image whose pixels are all zero.
\<close>

definition mul3NonNeg :: "int \<Rightarrow> int \<Rightarrow> int \<Rightarrow> int" where
  "mul3NonNeg x y z =
     (if x < 0 \<or> y < 0 \<or> z < 0 then -1
      else if x * y \<ge> 2 ^ 64 then -1
      else if x * y * z \<ge> 2 ^ 64 then -1
      else if x * y * z \<ge> 2 ^ 63 then -1
      else x * y * z)"

definition NewRGBA :: "Rectangle \<Rightarrow> panic + RGBAImage" where
  "NewRGBA r =
     (if mul3NonNeg 4 (Dx r) (Dy r) < 0 then Inl Panic
      else Inr \<lparr>Rect = r, Pix = (\<lambda>_. (0, 0, 0, 0))\<rparr>)"

text \<open>\<^verbatim>\<open>(*image.RGBA).Set\<close> with a \<^verbatim>\<open>color.RGBA\<close>: no effect outside the rectangle.\<close>

definition RGBA_Set :: "RGBAImage \<Rightarrow> int \<Rightarrow> int \<Rightarrow> rgba8 \<Rightarrow> RGBAImage" where
  "RGBA_Set p x y c =
     (if \<not> Point_In (x, y) (Rect p) then p else p\<lparr>Pix := (Pix p)((x, y) := c)\<rparr>)"

text \<open>\<^verbatim>\<open>color.RGBA.RGBA()\<close>: each byte \<open>v\<close> becomes \<open>v | v << 8\<close>.\<close>

definition RGBA_RGBA :: "rgba8 \<Rightarrow> rgba32" where
  "RGBA_RGBA c =
     (case c of (r, g, b, a) \<Rightarrow>
        (ucast r OR push_bit 8 (ucast r), ucast g OR push_bit 8 (ucast g),
         ucast b OR push_bit 8 (ucast b), ucast a OR push_bit 8 (ucast a)))"

text \<open>An \<^verbatim>\<open>*image.RGBA\<close> seen through the \<^verbatim>\<open>image.Image\<close> interface.\<close>

definition RGBA_Image :: "RGBAImage \<Rightarrow> Image" where
  "RGBA_Image p =
     \<lparr>Bounds = Rect p,
      At = (\<lambda>x y. if Point_In (x, y) (Rect p) then RGBA_RGBA (Pix p (x, y)) else (0, 0, 0, 0))\<rparr>"

subsection \<open>Floating point\<close>

text \<open>
  Rounding to the nearest integer, ties to the even one; the exponent
  \<open>\<lfloor>log\<^sub>2 \<bar>x\<bar>\<rfloor>\<close> of a non-zero real, computed from the bit length of an integer;
  and rounding to \<open>p\<close> significant bits.
\<close>

definition round_half_even :: "real \<Rightarrow> int" where
  "round_half_even q =
     (let f = \<lfloor>q\<rfloor>; d = q - of_int f in
      if d < 1 / 2 then f else if d > 1 / 2 then f + 1 else if even f then f else f + 1)"

definition float_exponent :: "real \<Rightarrow> int" where
  "float_exponent x =
     (if \<bar>x\<bar> \<ge> 1 then bitlen \<lfloor>\<bar>x\<bar>\<rfloor> - 1 else - bitlen (\<lceil>1 / \<bar>x\<bar>\<rceil> - 1))"

definition ieee_round :: "nat \<Rightarrow> real \<Rightarrow> real" where
  "ieee_round p x =
     (if x = 0 then 0
      else let u = 2 powi (float_exponent x - int p + 1)
           in of_int (round_half_even (x / u)) * u)"

definition round32 :: "real \<Rightarrow> real" where
  "round32 = ieee_round 24"

definition round64 :: "real \<Rightarrow> real" where
  "round64 = ieee_round 53"

text \<open>The conversions and operations the code uses.\<close>

definition float32_of_int :: "int \<Rightarrow> real" where
  "float32_of_int i = round32 (of_int i)"

definition float32_div :: "real \<Rightarrow> real \<Rightarrow> real" where
  "float32_div a b = round32 (a / b)"

definition float64_of_int :: "int \<Rightarrow> real" where
  "float64_of_int i = round64 (of_int i)"

definition float64_of_uint32 :: "uint32 \<Rightarrow> real" where
  "float64_of_uint32 w = round64 (real (unat w))"

definition uint64_to_float64 :: "uint64 \<Rightarrow> real" where
  "uint64_to_float64 w = round64 (real (unat w))"

definition float64_mul :: "real \<Rightarrow> real \<Rightarrow> real" where
  "float64_mul a b = round64 (a * b)"

text \<open>
  The result of a \<^verbatim>\<open>float64\<close> division: a finite value, an infinity or NaN.
  Dividing by zero does not panic in Go: it gives an infinity, or NaN for \<open>0 / 0\<close>.
\<close>

datatype float64 = Finite real | PosInf | NegInf | NaN

definition float64_div :: "real \<Rightarrow> real \<Rightarrow> float64" where
  "float64_div a b =
     (if b \<noteq> 0 then Finite (round64 (a / b))
      else if a = 0 then NaN
      else if a > 0 then PosInf else NegInf)"

text \<open>Conversion of a float to an integer type discards the fraction.\<close>

definition trunc :: "real \<Rightarrow> int" where
  "trunc r = (if r \<ge> 0 then \<lfloor>r\<rfloor> else \<lceil>r\<rceil>)"

definition uint8_of_float64 :: "real \<Rightarrow> uint8" where
  "uint8_of_float64 r = word_of_int (trunc r)"

section \<open>The difference engine\<close>

text \<open>\<^verbatim>\<open>absDiff\<close>: the absolute difference of two \<^verbatim>\<open>uint32\<close> values.\<close>

definition absDiff :: "uint32 \<Rightarrow> uint32 \<Rightarrow> uint32" where
  "absDiff a b = (if a > b then a - b else b - a)"

definition amplificationFactor :: real where
  "amplificationFactor = 5.0"

text \<open>The variables the two loops of \<^verbatim>\<open>ComputeImageDiffFast\<close> update.\<close>

record diff_state =
  diff :: RGBAImage
  totalDiff :: uint64
  pixelCount :: uint64

text \<open>
  The body of the inner loop at the point \<open>(x, y)\<close>: the three truncated channel
  deltas, their amplified and clamped values, the monochrome override, the write to
  \<open>diff\<close> and the two accumulators.
\<close>

definition pixel_body :: "Image \<Rightarrow> Image \<Rightarrow> bool \<Rightarrow> int \<Rightarrow> int \<Rightarrow> diff_state \<Rightarrow> diff_state" where
  "pixel_body img1 img22 differenceAsMonochrome x y st =
     (case At img1 x y of (r1, g1, b1, a1) \<Rightarrow>
      case At img22 x y of (r2, g2, b2, a2) \<Rightarrow>
      let dr = drop_bit 8 (absDiff r1 r2);
          dg = drop_bit 8 (absDiff g1 g2);
          db = drop_bit 8 (absDiff b1 b2);
          ampR = min (float64_mul (float64_of_uint32 dr) amplificationFactor) 255;
          ampG = min (float64_mul (float64_of_uint32 dg) amplificationFactor) 255;
          ampB = min (float64_mul (float64_of_uint32 db) amplificationFactor) 255;
          amp = (if differenceAsMonochrome
                 then (if dr = 0 \<and> dg = 0 \<and> db = 0 then (0, 0, 0) else (240, 0, 0))
                 else (ampR, ampG, ampB))
      in case amp of (ampR, ampG, ampB) \<Rightarrow>
         \<lparr>diff = RGBA_Set (diff st) x y
                   (uint8_of_float64 ampR, uint8_of_float64 ampG, uint8_of_float64 ampB, 255),
          totalDiff = totalDiff st + (ucast dr + ucast dg + ucast db),
          pixelCount = pixelCount st + 1\<rparr>)"

text \<open>
  The two nested loops, \<^verbatim>\<open>for y := bounds.Min.Y; y < bounds.Max.Y; y++\<close> around
  \<^verbatim>\<open>for x := bounds.Min.X; x < bounds.Max.X; x++\<close>, with the loop body as an
  argument: the body of the current \<^verbatim>\<open>ComputeImageDiffFast\<close> and the body of the
  older \<^verbatim>\<open>computeImageDiffFast\<close> run under the same loops.
\<close>

function row_loop ::
  "(int \<Rightarrow> int \<Rightarrow> diff_state \<Rightarrow> diff_state) \<Rightarrow> int \<Rightarrow> int \<Rightarrow> int \<Rightarrow> diff_state \<Rightarrow> diff_state" where
  "row_loop body xmax y x st =
     (if x < xmax then row_loop body xmax y (x + 1) (body x y st) else st)"
  by pat_completeness auto
termination
  by (relation "measure (\<lambda>(body, xmax, y, x, st). nat (xmax - x))") auto

function rows_loop ::
  "(int \<Rightarrow> int \<Rightarrow> diff_state \<Rightarrow> diff_state) \<Rightarrow> Rectangle \<Rightarrow> int \<Rightarrow> diff_state \<Rightarrow> diff_state" where
  "rows_loop body bounds y st =
     (if y < MaxY bounds
      then rows_loop body bounds (y + 1) (row_loop body (MaxX bounds) y (MinX bounds) st)
      else st)"
  by pat_completeness auto
termination
  by (relation "measure (\<lambda>(body, bounds, y, st). nat (MaxY bounds - y))") auto

text \<open>
  Bounds reconciliation: the second image is used as it is when its bounds equal the
  first image's, and is resized to the first image's width and height otherwise.
  \<open>imaging_Resize\<close> stands for \<^verbatim>\<open>imaging.Resize\<close> of the external
  \<^verbatim>\<open>disintegration/imaging\<close> package and is a parameter of the model.
\<close>

type_synonym imaging_resize = "Image \<Rightarrow> int \<Rightarrow> int \<Rightarrow> ResampleFilter \<Rightarrow> Image"

definition reconcile :: "imaging_resize \<Rightarrow> Image \<Rightarrow> Image \<Rightarrow> ScalingAlgorithm \<Rightarrow> Image" where
  "reconcile imaging_Resize img1 img2 algo =
     (let bounds = Bounds img1 in
      if \<not> Rect_Eq (Bounds img2) bounds
      then imaging_Resize img2 (Dx bounds) (Dy bounds)
             (case algo of NearestNeighbor \<Rightarrow> imaging_NearestNeighbor | _ \<Rightarrow> imaging_Linear)
      else img2)"

text \<open>
  \<^verbatim>\<open>ComputeImageDiffFast\<close>: the visualization, the mean absolute error and the
  pixel count, or the panic of \<^verbatim>\<open>image.NewRGBA\<close>.
\<close>

definition ComputeImageDiffFast ::
  "imaging_resize \<Rightarrow> Image \<Rightarrow> Image \<Rightarrow> ScalingAlgorithm \<Rightarrow> bool
     \<Rightarrow> panic + (RGBAImage \<times> float64 \<times> uint64)" where
  "ComputeImageDiffFast imaging_Resize img1 img2 algo differenceAsMonochrome =
     (let bounds = Bounds img1;
          img22 = reconcile imaging_Resize img1 img2 algo
      in case NewRGBA bounds of
           Inl e \<Rightarrow> Inl e
         | Inr d \<Rightarrow>
             let st = rows_loop (pixel_body img1 img22 differenceAsMonochrome) bounds
                        (MinY bounds) \<lparr>diff = d, totalDiff = 0, pixelCount = 0\<rparr>;
                 mae = float64_div (uint64_to_float64 (totalDiff st))
                         (uint64_to_float64 (pixelCount st * 3))
             in Inr (diff st, mae, pixelCount st))"

text \<open>
  The older \<^verbatim>\<open>computeImageDiffFast\<close> of \<^verbatim>\<open>utils.go\<close> (package main): always
  the linear filter, and no monochrome mode.
\<close>

definition pixel_body_main :: "Image \<Rightarrow> Image \<Rightarrow> int \<Rightarrow> int \<Rightarrow> diff_state \<Rightarrow> diff_state" where
  "pixel_body_main img1 img22 x y st =
     (case At img1 x y of (r1, g1, b1, a1) \<Rightarrow>
      case At img22 x y of (r2, g2, b2, a2) \<Rightarrow>
      let dr = drop_bit 8 (absDiff r1 r2);
          dg = drop_bit 8 (absDiff g1 g2);
          db = drop_bit 8 (absDiff b1 b2);
          ampR = min (float64_mul (float64_of_uint32 dr) amplificationFactor) 255;
          ampG = min (float64_mul (float64_of_uint32 dg) amplificationFactor) 255;
          ampB = min (float64_mul (float64_of_uint32 db) amplificationFactor) 255
      in \<lparr>diff = RGBA_Set (diff st) x y
                   (uint8_of_float64 ampR, uint8_of_float64 ampG, uint8_of_float64 ampB, 255),
          totalDiff = totalDiff st + (ucast dr + ucast dg + ucast db),
          pixelCount = pixelCount st + 1\<rparr>)"

definition computeImageDiffFast ::
  "imaging_resize \<Rightarrow> Image \<Rightarrow> Image \<Rightarrow> panic + (RGBAImage \<times> float64 \<times> uint64)" where
  "computeImageDiffFast imaging_Resize img1 img2 =
     (let bounds = Bounds img1;
          img22 = (if \<not> Rect_Eq (Bounds img2) bounds
                   then imaging_Resize img2 (Dx bounds) (Dy bounds) imaging_Linear
                   else img2)
      in case NewRGBA bounds of
           Inl e \<Rightarrow> Inl e
         | Inr d \<Rightarrow>
             let st = rows_loop (pixel_body_main img1 img22) bounds
                        (MinY bounds) \<lparr>diff = d, totalDiff = 0, pixelCount = 0\<rparr>;
                 mae = float64_div (uint64_to_float64 (totalDiff st))
                         (uint64_to_float64 (pixelCount st * 3))
             in Inr (diff st, mae, pixelCount st))"


section \<open>Geometry, scaling and cropping\<close>

text \<open>
  \<^verbatim>\<open>GetScaledBounds\<close>, in \<^verbatim>\<open>float32\<close> arithmetic: every conversion and every
  division rounds. The same function is \<^verbatim>\<open>getScaledBounds\<close> in the older
  \<^verbatim>\<open>utils.go\<close>.
\<close>

definition GetScaledBounds :: "Image \<Rightarrow> real \<times> real" where
  "GetScaledBounds srcImage =
     (let bounds = Bounds srcImage;
          sizeX = float32_of_int (Dx bounds);
          sizeY = float32_of_int (Dy bounds)
      in if Dx bounds > ImageMaxWidth \<or> Dy bounds > ImageMaxHeight
         then
           let scaleX = float32_div (float32_of_int (Dx bounds)) (float32_of_int ImageMaxWidth);
               scaleY = float32_div (float32_of_int (Dy bounds)) (float32_of_int ImageMaxHeight)
           in if scaleX > scaleY
              then (float32_of_int ImageMaxWidth,
                    float32_div (float32_of_int (Dy bounds)) scaleX)
              else (float32_div (float32_of_int (Dx bounds)) scaleY,
                    float32_of_int ImageMaxHeight)
         else (sizeX, sizeY))"

text \<open>
  \<^verbatim>\<open>RescaleImageFast\<close>. \<open>resize_Resize\<close> stands for \<^verbatim>\<open>resize.Resize\<close> of the
  external \<^verbatim>\<open>nfnt/resize\<close> package and is a parameter of the model; the conversion
  \<^verbatim>\<open>uint(w)\<close> discards the fraction.
\<close>

type_synonym nfnt_resize = "uint64 \<Rightarrow> uint64 \<Rightarrow> Image \<Rightarrow> InterpolationFunction \<Rightarrow> Image"

definition uint_of_float32 :: "real \<Rightarrow> uint64" where
  "uint_of_float32 r = word_of_int (trunc r)"

definition RescaleImageFast :: "nfnt_resize \<Rightarrow> Image \<Rightarrow> ScalingAlgorithm \<Rightarrow> Image" where
  "RescaleImageFast resize_Resize src algo =
     (case GetScaledBounds src of (w, h) \<Rightarrow>
        let interp = (case algo of NearestNeighbor \<Rightarrow> resize_NearestNeighbor
                      | _ \<Rightarrow> resize_Bilinear)
        in resize_Resize (uint_of_float32 w) (uint_of_float32 h) src interp)"

text \<open>
  \<^verbatim>\<open>draw.Draw(dst, r, src, sp, draw.Src)\<close> of the standard library for an
  \<^verbatim>\<open>*image.RGBA\<close> destination and no mask. The rectangle is clipped to the
  destination and to the source translated so that \<open>sp\<close> meets the rectangle's
  corner; each remaining destination pixel receives the source colour converted to
  \<^verbatim>\<open>color.RGBA\<close>, that is the high byte of each 16-bit channel.
\<close>

definition rgba8_of :: "rgba32 \<Rightarrow> rgba8" where
  "rgba8_of c =
     (case c of (r, g, b, a) \<Rightarrow>
        (ucast (drop_bit 8 r), ucast (drop_bit 8 g), ucast (drop_bit 8 b), ucast (drop_bit 8 a)))"

definition draw_Draw_Src :: "RGBAImage \<Rightarrow> Rectangle \<Rightarrow> Image \<Rightarrow> int \<times> int \<Rightarrow> RGBAImage" where
  "draw_Draw_Src dst r src sp =
     (let orig = (MinX r, MinY r);
          r1 = Rect_Intersect r (Rect dst);
          r2 = Rect_Intersect r1 (Rect_Add (Bounds src) (fst orig - fst sp, snd orig - snd sp));
          dx = MinX r2 - fst orig;
          dy = MinY r2 - snd orig;
          sp' = (fst sp + dx, snd sp + dy)
      in if Rect_Empty r2 then dst
         else dst\<lparr>Pix := (\<lambda>p. if Point_In p r2
                              then rgba8_of (At src (fst sp' + (fst p - MinX r2))
                                                    (snd sp' + (snd p - MinY r2)))
                              else Pix dst p)\<rparr>)"

text \<open>
  \<^verbatim>\<open>CropImageFast\<close> up to the call of \<^verbatim>\<open>draw.Draw\<close>: the canvas
  \<^verbatim>\<open>croppedImage\<close> before it is rescaled. These lines are the same in
  \<^verbatim>\<open>cropImageFast\<close> of the older \<^verbatim>\<open>utils.go\<close>. The ratio is a finite
  \<^verbatim>\<open>float64\<close>.
\<close>

definition CropImageFast_canvas :: "Image \<Rightarrow> real \<Rightarrow> panic + RGBAImage" where
  "CropImageFast_canvas src ratio0 =
     (let bounds = Bounds src;
          w = Dx bounds;
          h = Dy bounds;
          ratio1 = max 0 ratio0;
          ratio = (if ratio1 > 1 then 1 else ratio1);
          endX = trunc (float64_mul (float64_of_int w) ratio);
          destRect = image_Rect 0 0 endX h
      in case NewRGBA (image_Rect 0 0 w h) of
           Inl e \<Rightarrow> Inl e
         | Inr croppedImage \<Rightarrow> Inr (draw_Draw_Src croppedImage destRect src (0, 0)))"

definition CropImageFast ::
  "nfnt_resize \<Rightarrow> Image \<Rightarrow> real \<Rightarrow> ScalingAlgorithm \<Rightarrow> panic + Image" where
  "CropImageFast resize_Resize src ratio algo =
     (case CropImageFast_canvas src ratio of
        Inl e \<Rightarrow> Inl e
      | Inr croppedImage \<Rightarrow> Inr (RescaleImageFast resize_Resize (RGBA_Image croppedImage) algo))"


section \<open>The image codec\<close>

text \<open>
  \<^verbatim>\<open>LoadImage\<close> reads files and runs an external program. The file system is a
  map from paths to contents; the programs found on \<^verbatim>\<open>PATH\<close> are a map from names
  to their effect on the file system and their exit status. The decoder behind
  \<^verbatim>\<open>imaging.Open\<close> is a parameter of the model.
\<close>

type_synonym filesystem = "string \<rightharpoonup> string"
type_synonym program = "string list \<Rightarrow> filesystem \<Rightarrow> filesystem \<times> nat"
type_synonym environment = "string \<rightharpoonup> program"

text \<open>
  The errors \<^verbatim>\<open>LoadImage\<close> can return: \<^verbatim>\<open>exec.ErrNotFound\<close> (the executable
  is not on \<^verbatim>\<open>PATH\<close>), \<^verbatim>\<open>*exec.ExitError\<close> (it ran and exited non-zero),
  a missing file, and a decoding error.
\<close>

datatype go_error = exec_ErrNotFound | exec_ExitError nat | fs_ErrNotExist | image_ErrFormat

type_synonym decoder = "string \<Rightarrow> go_error + Image"

text \<open>
  \<^verbatim>\<open>filepath.Ext\<close>: the suffix from the last dot of the last path element, found by
  scanning from the end up to a path separator.
\<close>

fun Ext_scan :: "string \<Rightarrow> string \<Rightarrow> string" where
  "Ext_scan [] suffix = []"
| "Ext_scan (c # cs) suffix =
     (if c = CHR ''/'' then []
      else if c = CHR ''.'' then c # suffix
      else Ext_scan cs (c # suffix))"

definition filepath_Ext :: "string \<Rightarrow> string" where
  "filepath_Ext path = Ext_scan (rev path) []"

text \<open>
  \<^verbatim>\<open>exec.Command\<close> looks the name up and records a failed lookup in the command;
  \<^verbatim>\<open>Cmd.Run\<close> returns a recorded error without starting a process, and otherwise
  runs the program and turns a non-zero exit status into an error.
\<close>

record Cmd =
  Cmd_Path :: string
  Cmd_Args :: "string list"
  Cmd_Err :: "go_error option"

definition exec_Command :: "environment \<Rightarrow> string \<Rightarrow> string list \<Rightarrow> Cmd" where
  "exec_Command env name arg =
     \<lparr>Cmd_Path = name, Cmd_Args = arg,
      Cmd_Err = (if env name = None then Some exec_ErrNotFound else None)\<rparr>"

definition Cmd_Run :: "environment \<Rightarrow> Cmd \<Rightarrow> filesystem \<Rightarrow> go_error option \<times> filesystem" where
  "Cmd_Run env cmd fs =
     (case Cmd_Err cmd of
        Some e \<Rightarrow> (Some e, fs)
      | None \<Rightarrow>
          (case env (Cmd_Path cmd) of
             None \<Rightarrow> (Some exec_ErrNotFound, fs)
           | Some prog \<Rightarrow>
               (case prog (Cmd_Args cmd) fs of (fs', status) \<Rightarrow>
                  (if status = 0 then None else Some (exec_ExitError status), fs'))))"

definition imaging_Open :: "decoder \<Rightarrow> filesystem \<Rightarrow> string \<Rightarrow> go_error + Image" where
  "imaging_Open decode fs path =
     (case fs path of None \<Rightarrow> Inl fs_ErrNotExist | Some content \<Rightarrow> decode content)"

definition os_Remove :: "filesystem \<Rightarrow> string \<Rightarrow> filesystem" where
  "os_Remove fs path = fs(path := None)"

text \<open>
  \<^verbatim>\<open>LoadImage\<close>: the result and the file system it leaves. The deferred
  \<^verbatim>\<open>os.Remove\<close> is registered after the error check of \<^verbatim>\<open>cmd.Run\<close>, so it runs
  only on the path that reaches \<^verbatim>\<open>imaging.Open(tmpFile)\<close>. The same function is
  \<^verbatim>\<open>loadImage\<close> in the older \<^verbatim>\<open>utils.go\<close>.
\<close>

definition LoadImage ::
  "environment \<Rightarrow> decoder \<Rightarrow> string \<Rightarrow> filesystem \<Rightarrow> (go_error + Image) \<times> filesystem" where
  "LoadImage env decode path fs =
     (let ext = filepath_Ext path in
      if ext = ''.jxl'' then
        let tmpFile = path @ ''.converted.png'';
            cmd = exec_Command env ''djxl'' [path, tmpFile]
        in case Cmd_Run env cmd fs of
             (Some err, fs1) \<Rightarrow> (Inl err, fs1)
           | (None, fs1) \<Rightarrow> (imaging_Open decode fs1 tmpFile, os_Remove fs1 tmpFile)
      else (imaging_Open decode fs path, fs))"


section \<open>The specification's terms\<close>

text \<open>
  The quantities the specification names, written from its words, to be compared with
  what the code computes. The truncated channel delta is the absolute difference of
  the two 16-bit channel values divided by \<open>2 ^ 8\<close>, rounding down; the amplified value
  is five times the delta, clamped to 255.
\<close>

definition spec_delta :: "uint32 \<Rightarrow> uint32 \<Rightarrow> nat" where
  "spec_delta c1 c2 =
     (if unat c1 \<ge> unat c2 then unat c1 - unat c2 else unat c2 - unat c1) div 2 ^ 8"

definition spec_amplified :: "uint32 \<Rightarrow> uint32 \<Rightarrow> nat" where
  "spec_amplified c1 c2 = min (5 * spec_delta c1 c2) 255"

text \<open>The output pixel in normal mode and in monochrome mode.\<close>

definition amplified_pixel :: "rgba32 \<Rightarrow> rgba32 \<Rightarrow> rgba8" where
  "amplified_pixel c1 c2 =
     (case c1 of (r1, g1, b1, a1) \<Rightarrow>
      case c2 of (r2, g2, b2, a2) \<Rightarrow>
        (of_nat (spec_amplified r1 r2), of_nat (spec_amplified g1 g2),
         of_nat (spec_amplified b1 b2), 255))"

definition monochrome_pixel :: "rgba32 \<Rightarrow> rgba32 \<Rightarrow> rgba8" where
  "monochrome_pixel c1 c2 =
     (case c1 of (r1, g1, b1, a1) \<Rightarrow>
      case c2 of (r2, g2, b2, a2) \<Rightarrow>
        if spec_delta r1 r2 = 0 \<and> spec_delta g1 g2 = 0 \<and> spec_delta b1 b2 = 0
        then (0, 0, 0, 255) else (240, 0, 0, 255))"

definition diff_color :: "Image \<Rightarrow> Image \<Rightarrow> bool \<Rightarrow> int \<Rightarrow> int \<Rightarrow> rgba8" where
  "diff_color img1 img22 m x y =
     (case At img1 x y of (r1, g1, b1, a1) \<Rightarrow>
      case At img22 x y of (r2, g2, b2, a2) \<Rightarrow>
        if m then
          (if spec_delta r1 r2 = 0 \<and> spec_delta g1 g2 = 0 \<and> spec_delta b1 b2 = 0
           then (0, 0, 0, 255) else (240, 0, 0, 255))
        else (of_nat (spec_amplified r1 r2), of_nat (spec_amplified g1 g2),
              of_nat (spec_amplified b1 b2), 255))"

text \<open>
  The sum of the three truncated deltas at a pixel, their sum over all pixels of a
  rectangle, and the number of pixels of a rectangle.
\<close>

definition delta3 :: "Image \<Rightarrow> Image \<Rightarrow> int \<Rightarrow> int \<Rightarrow> nat" where
  "delta3 img1 img22 x y =
     (case At img1 x y of (r1, g1, b1, a1) \<Rightarrow>
      case At img22 x y of (r2, g2, b2, a2) \<Rightarrow>
        spec_delta r1 r2 + spec_delta g1 g2 + spec_delta b1 b2)"

definition total_delta :: "Image \<Rightarrow> Image \<Rightarrow> Rectangle \<Rightarrow> nat" where
  "total_delta img1 img22 b =
     (\<Sum>j \<in> {MinY b..<MaxY b}. \<Sum>i \<in> {MinX b..<MaxX b}. delta3 img1 img22 i j)"

definition area :: "Rectangle \<Rightarrow> nat" where
  "area b = nat (Dx b) * nat (Dy b)"

text \<open>
  The visualization as one image, and the quotient the code forms from a total and a
  pixel count held in \<^verbatim>\<open>uint64\<close> variables.
\<close>

definition diff_image :: "Image \<Rightarrow> Image \<Rightarrow> bool \<Rightarrow> RGBAImage" where
  "diff_image img1 img22 m =
     \<lparr>Rect = Bounds img1,
      Pix = (\<lambda>p. if Point_In p (Bounds img1) then diff_color img1 img22 m (fst p) (snd p)
                 else (0, 0, 0, 0))\<rparr>"

definition mae_of :: "nat \<Rightarrow> nat \<Rightarrow> float64" where
  "mae_of t n =
     float64_div (uint64_to_float64 (of_nat t)) (uint64_to_float64 (of_nat n * 3))"

text \<open>
  A loop body that writes the colour \<open>col x y\<close>, adds \<open>dl x y\<close> to the total and counts
  the pixel.
\<close>

definition steps_as ::
  "(int \<Rightarrow> int \<Rightarrow> diff_state \<Rightarrow> diff_state) \<Rightarrow> (int \<Rightarrow> int \<Rightarrow> rgba8) \<Rightarrow> (int \<Rightarrow> int \<Rightarrow> nat) \<Rightarrow> bool" where
  "steps_as body col dl \<longleftrightarrow>
     (\<forall>x y st. body x y st =
        \<lparr>diff = RGBA_Set (diff st) x y (col x y),
         totalDiff = totalDiff st + of_nat (dl x y),
         pixelCount = pixelCount st + 1\<rparr>)"

text \<open>The contract of \<^verbatim>\<open>Color.RGBA\<close> at every pixel of a rectangle.\<close>

definition valid_within :: "Rectangle \<Rightarrow> Image \<Rightarrow> bool" where
  "valid_within b img \<longleftrightarrow>
     (\<forall>y \<in> {MinY b..<MaxY b}. \<forall>x \<in> {MinX b..<MaxX b}. valid_color (At img x y))"

text \<open>
  Two positive reals within the factor \<open>c\<close> of each other, and the factor that one
  \<^verbatim>\<open>float32\<close> rounding contributes.
\<close>

definition close_to :: "real \<Rightarrow> real \<Rightarrow> real \<Rightarrow> bool" where
  "close_to c x y \<longleftrightarrow> x \<le> y * c \<and> y \<le> x * c"

definition c32 :: real where
  "c32 = 16777216 / 16777215"

section \<open>Example inputs\<close>

text \<open>
  Images at the origin given by their rows (all of one length) or by one colour; a
  resize that takes the nearest source sample, as an instance of the resize parameter;
  a converter that writes part of its output and fails; a decoder that rejects every
  file.
\<close>

definition image_of_rows :: "rgba32 list list \<Rightarrow> Image" where
  "image_of_rows rows =
     (let b = image_Rect 0 0 (case rows of [] \<Rightarrow> 0 | r # _ \<Rightarrow> int (length r))
                (int (length rows)) in
      \<lparr>Bounds = b,
       At = (\<lambda>x y. if Point_In (x, y) b then rows ! nat y ! nat x else (0, 0, 0, 0))\<rparr>)"

definition solid_image :: "int \<Rightarrow> int \<Rightarrow> rgba32 \<Rightarrow> Image" where
  "solid_image w h c =
     (let b = image_Rect 0 0 w h in
      \<lparr>Bounds = b, At = (\<lambda>x y. if Point_In (x, y) b then c else (0, 0, 0, 0))\<rparr>)"

definition nearest_resize :: imaging_resize where
  "nearest_resize img w h f =
     (let b = image_Rect 0 0 w h in
      \<lparr>Bounds = b,
       At = (\<lambda>x y. if Point_In (x, y) b
                   then At img (MinX (Bounds img) + ((2 * x + 1) * Dx (Bounds img)) div (2 * w))
                               (MinY (Bounds img) + ((2 * y + 1) * Dy (Bounds img)) div (2 * h))
                   else (0, 0, 0, 0))\<rparr>)"

definition black :: rgba32 where
  "black = (0, 0, 0, 0xffff)"

definition white :: rgba32 where
  "white = (0xffff, 0xffff, 0xffff, 0xffff)"

definition one_black :: Image where
  "one_black = image_of_rows [[black]]"

definition black_white :: Image where
  "black_white = image_of_rows [[black, white]]"

definition deep_pixel :: Image where
  "deep_pixel = image_of_rows [[(0x1234, 0, 0, 0xffff)]]"

definition failing_djxl :: program where
  "failing_djxl arg fs =
     (case arg of [inp, out] \<Rightarrow> (fs(out \<mapsto> ''partial''), 1) | _ \<Rightarrow> (fs, 2))"

definition no_decoder :: decoder where
  "no_decoder content = Inl image_ErrFormat"


section \<open>Properties of the rounding\<close>

text \<open>
  Rounding to \<open>p\<close> bits changes a value by at most the fraction \<open>1 / 2 ^ p\<close> of
  it, keeps integers below \<open>2 ^ p\<close> as they are, and keeps a value below \<open>2 ^ p\<close> on
  its side of every integer.
\<close>

lemma round_half_even_err: "\<bar>of_int (round_half_even q) - q\<bar> \<le> 1 / 2"
  unfolding round_half_even_def Let_def by (auto simp: abs_le_iff; linarith)

lemma round_half_even_of_int [simp]: "round_half_even (of_int z) = z"
  by (simp add: round_half_even_def)

lemma round_half_even_le: "q \<le> of_int N \<Longrightarrow> round_half_even q \<le> N"
  unfolding round_half_even_def Let_def by (auto simp: le_floor_iff floor_le_iff; linarith)

lemma round_half_even_ge: "of_int N \<le> q \<Longrightarrow> N \<le> round_half_even q"
  unfolding round_half_even_def Let_def by (auto simp: le_floor_iff; linarith)

lemma float_exponent_bounds:
  assumes "x \<noteq> 0"
  shows "2 powi float_exponent x \<le> \<bar>x\<bar>" and "\<bar>x\<bar> < 2 powi (float_exponent x + 1)"
proof -
  have "2 powi float_exponent x \<le> \<bar>x\<bar> \<and> \<bar>x\<bar> < 2 powi (float_exponent x + 1)"
  proof (cases "\<bar>x\<bar> \<ge> 1")
    case True
    define n where "n = \<lfloor>\<bar>x\<bar>\<rfloor>"
    have n: "0 < n" "of_int n \<le> \<bar>x\<bar>" "\<bar>x\<bar> < of_int n + 1"
      using True by (simp_all add: n_def)
    define b where "b = bitlen n"
    from bitlen_bounds [OF n(1)] have bb: "2 ^ nat (b - 1) \<le> n" "n < 2 ^ nat b"
      by (simp_all add: b_def)
    have b1: "1 \<le> b"
      using n(1) by (auto simp: b_def bitlen_alt_def)
    have e: "float_exponent x = b - 1"
      using True by (simp add: float_exponent_def b_def n_def)
    have "(2::real) ^ nat (b - 1) \<le> of_int n"
      using bb(1) by (metis of_int_le_iff of_int_numeral of_int_power)
    then have "(2::real) ^ nat (b - 1) \<le> \<bar>x\<bar>"
      using n(2) by (rule order_trans)
    then have lo: "2 powi (b - 1) \<le> \<bar>x\<bar>"
      using b1 by (simp add: power_int_nonneg_exp)
    have "n + 1 \<le> 2 ^ nat b"
      using bb(2) by simp
    then have "of_int (n + 1) \<le> (2::real) ^ nat b"
      by (metis of_int_le_iff of_int_numeral of_int_power)
    moreover have "\<bar>x\<bar> < of_int (n + 1)"
      using n(3) by simp
    ultimately have "\<bar>x\<bar> < (2::real) ^ nat b"
      by (rule less_le_trans [rotated])
    then have hi: "\<bar>x\<bar> < 2 powi b"
      using b1 by (simp add: power_int_nonneg_exp)
    from lo hi show ?thesis
      by (simp add: e)
  next
    case False
    define y where "y = 1 / \<bar>x\<bar>"
    have xpos: "0 < \<bar>x\<bar>" using assms by simp
    have y1: "1 < y"
      using False xpos by (simp add: y_def)
    define m where "m = \<lceil>y\<rceil> - 1"
    have m: "0 < m" "of_int m < y" "y \<le> of_int m + 1"
      using y1 by (simp_all add: m_def less_ceiling_iff) linarith+
    define b where "b = bitlen m"
    from bitlen_bounds [OF m(1)] have bb: "2 ^ nat (b - 1) \<le> m" "m < 2 ^ nat b"
      by (simp_all add: b_def)
    have b1: "1 \<le> b"
      using m(1) by (auto simp: b_def bitlen_alt_def)
    have e: "float_exponent x = - b"
      using False by (simp add: float_exponent_def b_def m_def y_def)
    have "(2::real) ^ nat (b - 1) \<le> of_int m"
      using bb(1) by (metis of_int_le_iff of_int_numeral of_int_power)
    then have ylo: "2 ^ nat (b - 1) < y"
      using m(2) by (rule le_less_trans)
    have "m + 1 \<le> 2 ^ nat b"
      using bb(2) by simp
    then have "of_int (m + 1) \<le> (2::real) ^ nat b"
      by (metis of_int_le_iff of_int_numeral of_int_power)
    moreover have "y \<le> of_int (m + 1)"
      using m(3) by simp
    ultimately have yhi: "y \<le> 2 ^ nat b"
      by (rule order_trans [rotated])
    have x: "\<bar>x\<bar> = 1 / y"
      by (simp add: y_def)
    have "1 / 2 ^ nat b \<le> 1 / y"
      using yhi y1 by (intro divide_left_mono) simp_all
    then have lo: "2 powi (- b) \<le> \<bar>x\<bar>"
      using b1 by (simp add: x power_int_minus_divide power_int_nonneg_exp)
    have "1 / y < 1 / 2 ^ nat (b - 1)"
      using ylo y1 by (intro divide_strict_left_mono) simp_all
    then have hi: "\<bar>x\<bar> < 2 powi (- b + 1)"
    proof -
      have "- b + 1 = - (b - 1)" by simp
      then have "(2::real) powi (- b + 1) = 1 / 2 ^ nat (b - 1)"
        using b1 by (simp only: power_int_minus_divide) (simp add: power_int_nonneg_exp)
      with \<open>1 / y < 1 / 2 ^ nat (b - 1)\<close> show ?thesis
        by (simp add: x)
    qed
    from lo hi show ?thesis
      by (simp add: e)
  qed
  then show "2 powi float_exponent x \<le> \<bar>x\<bar>" and "\<bar>x\<bar> < 2 powi (float_exponent x + 1)"
    by simp_all
qed

lemma ieee_round_error: "\<bar>ieee_round p x - x\<bar> \<le> \<bar>x\<bar> / 2 ^ p"
proof (cases "x = 0")
  case True
  then show ?thesis by (simp add: ieee_round_def)
next
  case False
  define e where "e = float_exponent x"
  define u :: real where "u = 2 powi (e - int p + 1)"
  have u: "0 < u" by (simp add: u_def)
  have r: "ieee_round p x = of_int (round_half_even (x / u)) * u"
    using False by (simp add: ieee_round_def u_def e_def Let_def)
  have "\<bar>of_int (round_half_even (x / u)) * u - x\<bar>
      = \<bar>of_int (round_half_even (x / u)) - x / u\<bar> * u"
  proof -
    have "of_int (round_half_even (x / u)) * u - x
        = (of_int (round_half_even (x / u)) - x / u) * u"
      using u by (simp add: field_simps)
    then show ?thesis
      using u by (simp add: abs_mult)
  qed
  also have "\<dots> \<le> 1 / 2 * u"
    using u round_half_even_err [of "x / u"] by (intro mult_right_mono) simp_all
  also have "\<dots> = 2 powi e / 2 ^ p"
  proof -
    have "e - int p + 1 = (e + 1) - int p" by simp
    then have "u = 2 powi (e + 1) / 2 powi (int p)"
      unfolding u_def by (simp only: power_int_diff) (simp add: power_int_diff)
    also have "\<dots> = 2 * 2 powi e / 2 ^ p"
      by (simp add: power_int_add_1)
    finally show ?thesis by simp
  qed
  also have "\<dots> \<le> \<bar>x\<bar> / 2 ^ p"
    using float_exponent_bounds(1) [OF False] by (simp add: e_def divide_right_mono)
  finally show ?thesis
    by (simp add: r)
qed

lemma ieee_round_unit:
  assumes "x \<noteq> 0" and "\<bar>x\<bar> < 2 ^ p"
  shows "\<exists>k. ieee_round p x = of_int (round_half_even (x * 2 ^ k)) / 2 ^ k"
proof -
  define e where "e = float_exponent x"
  have "2 powi e < (2::real) powi (int p)"
    using float_exponent_bounds(1) [OF assms(1)] assms(2) by (simp add: e_def)
  then have "e < int p"
    by (rule power_int_le_imp_less_exp [rotated]) simp_all
  define k where "k = nat (int p - 1 - e)"
  have "e - int p + 1 = - int k"
    using \<open>e < int p\<close> by (simp add: k_def)
  then have "(2::real) powi (e - int p + 1) = 1 / 2 ^ k"
    by (simp add: power_int_minus_divide)
  then have "ieee_round p x = of_int (round_half_even (x * 2 ^ k)) / 2 ^ k"
    using assms(1) by (simp add: ieee_round_def e_def Let_def)
  then show ?thesis ..
qed

lemma ieee_round_le_int:
  assumes "\<bar>x\<bar> < 2 ^ p" and "x \<le> of_int N"
  shows "ieee_round p x \<le> of_int N"
proof (cases "x = 0")
  case True
  with assms(2) show ?thesis by (simp add: ieee_round_def)
next
  case False
  from ieee_round_unit [OF False assms(1)] obtain k where
    r: "ieee_round p x = of_int (round_half_even (x * 2 ^ k)) / 2 ^ k" ..
  have "x * 2 ^ k \<le> of_int (N * 2 ^ k)"
    using assms(2) by simp
  then have "round_half_even (x * 2 ^ k) \<le> N * 2 ^ k"
    by (rule round_half_even_le)
  then have "(of_int (round_half_even (x * 2 ^ k)) :: real) \<le> of_int (N * 2 ^ k)"
    by (simp only: of_int_le_iff)
  then show ?thesis
    by (simp add: r field_simps)
qed

lemma ieee_round_ge_int:
  assumes "\<bar>x\<bar> < 2 ^ p" and "of_int N \<le> x"
  shows "of_int N \<le> ieee_round p x"
proof (cases "x = 0")
  case True
  with assms(2) show ?thesis by (simp add: ieee_round_def)
next
  case False
  from ieee_round_unit [OF False assms(1)] obtain k where
    r: "ieee_round p x = of_int (round_half_even (x * 2 ^ k)) / 2 ^ k" ..
  have "of_int (N * 2 ^ k) \<le> x * 2 ^ k"
    using assms(2) by simp
  then have "N * 2 ^ k \<le> round_half_even (x * 2 ^ k)"
    by (rule round_half_even_ge)
  then have "(of_int (N * 2 ^ k) :: real) \<le> of_int (round_half_even (x * 2 ^ k))"
    by (simp only: of_int_le_iff)
  then show ?thesis
    by (simp add: r field_simps)
qed

lemma ieee_round_of_int:
  assumes "\<bar>z\<bar> < 2 ^ p"
  shows "ieee_round p (of_int z) = of_int z"
proof -
  have a: "\<bar>real_of_int z\<bar> < 2 ^ p"
    using assms by (metis of_int_abs of_int_less_iff of_int_numeral of_int_power)
  from ieee_round_le_int [OF a, of z] ieee_round_ge_int [OF a, of z] show ?thesis
    by simp
qed

lemma ieee_round_pos:
  assumes "0 < x" and "0 < p"
  shows "0 < ieee_round p x"
proof -
  have "(2::real) \<le> 2 ^ p"
    using assms(2) by (metis One_nat_def Suc_leI one_le_numeral power_increasing power_one_right)
  then have "x / 2 ^ p \<le> x / 2"
    using assms(1) by (intro divide_left_mono) simp_all
  moreover have "x - ieee_round p x \<le> x / 2 ^ p"
    using ieee_round_error [of p x] assms(1) by (simp add: abs_le_iff)
  ultimately have "x - ieee_round p x \<le> x / 2"
    by linarith
  with assms(1) show ?thesis
    by linarith
qed

lemma round64_of_nat:
  assumes "n < 2 ^ 53"
  shows "round64 (real n) = real n"
proof -
  have "\<bar>int n\<bar> < 2 ^ 53"
    using assms by (metis abs_of_nat of_nat_less_iff of_nat_numeral of_nat_power)
  then have "ieee_round 53 (of_int (int n)) = of_int (int n)"
    by (rule ieee_round_of_int)
  then show ?thesis
    by (simp add: round64_def)
qed

lemma round64_pos: "0 < x \<Longrightarrow> 0 < round64 x"
  by (simp add: round64_def ieee_round_pos)

lemma round64_bounds:
  assumes "0 \<le> x" and "x \<le> of_int N" and "N < 2 ^ 53"
  shows "0 \<le> round64 x" and "round64 x \<le> of_int N"
proof -
  have "x < 2 ^ 53"
  proof -
    have "real_of_int N < 2 ^ 53"
      using assms(3) by (metis of_int_less_iff of_int_numeral of_int_power)
    with assms(2) show ?thesis by simp
  qed
  with assms(1) have a: "\<bar>x\<bar> < 2 ^ 53" by simp
  from ieee_round_ge_int [OF a, of 0] assms(1) show "0 \<le> round64 x"
    by (simp add: round64_def)
  from ieee_round_le_int [OF a assms(2)] show "round64 x \<le> of_int N"
    by (simp add: round64_def)
qed


section \<open>Properties of the difference engine\<close>

subsection \<open>Channel arithmetic\<close>

text \<open>
  The shifted absolute difference of two channels is the floor of their distance
  divided by 256, and the clamped product written to the image is an integer that the
  \<^verbatim>\<open>float64\<close> computation represents exactly.
\<close>

lemma unat_absDiff: "unat (absDiff a b) = (if unat a \<ge> unat b then unat a - unat b else unat b - unat a)"
  unfolding absDiff_def
  by (auto simp: unat_sub word_less_nat_alt word_le_nat_alt not_less)

lemma unat_channel_delta: "unat (drop_bit 8 (absDiff a b)) = spec_delta a b"
  by (simp add: spec_delta_def drop_bit_eq_div unat_div unat_absDiff)

lemma spec_delta_less: "spec_delta a b < 2 ^ 24"
proof -
  have "unat a < 2 ^ 32" "unat b < 2 ^ 32"
    using unsigned_less [of a] unsigned_less [of b] by simp_all
  then show ?thesis
    by (simp add: spec_delta_def less_mult_imp_div_less)
qed

lemma uint8_amp:
  assumes "n < 2 ^ 24"
  shows "uint8_of_float64 (min (float64_mul (round64 (real n)) amplificationFactor) 255) =
     of_nat (min (5 * n) 255)"
proof -
  from assms have "n < 2 ^ 53" "5 * n < 2 ^ 53"
    by simp_all
  then have "round64 (real n) = real n" "round64 (real (5 * n)) = real (5 * n)"
    by (simp_all only: round64_of_nat)
  then have "float64_mul (round64 (real n)) amplificationFactor = real (5 * n)"
    by (simp add: float64_mul_def amplificationFactor_def mult.commute)
  moreover have "min (real (5 * n)) 255 = real (min (5 * n) 255)"
    by (simp add: min_def)
  ultimately show ?thesis
    by (simp add: uint8_of_float64_def trunc_def)
qed

lemma uint8_amp_word:
  "uint8_of_float64
     (min (float64_mul (float64_of_uint32 (drop_bit 8 (absDiff a b))) amplificationFactor) 255) =
     of_nat (min (5 * spec_delta a b) 255)"
  unfolding float64_of_uint32_def unat_channel_delta
  by (rule uint8_amp) (rule spec_delta_less)

lemma uint8_of_float64_consts:
  "uint8_of_float64 0 = 0" "uint8_of_float64 240 = 240"
  by (simp_all add: uint8_of_float64_def trunc_def)

lemma delta_zero_iff: "drop_bit 8 (absDiff a b) = 0 \<longleftrightarrow> spec_delta a b = 0"
  using unat_channel_delta [of a b] by (metis unat_eq_0)

lemma ucast_delta: "(ucast (drop_bit 8 (absDiff a b)) :: uint64) = of_nat (spec_delta a b)"
  using unat_channel_delta [of a b, symmetric] by simp

lemma spec_delta_le:
  assumes "c1 \<le> 0xffff" "c2 \<le> 0xffff"
  shows "spec_delta c1 c2 \<le> 255"
proof -
  from assms have "unat c1 \<le> 65535" "unat c2 \<le> 65535"
    by (simp_all add: word_le_nat_alt)
  then show ?thesis
    by (simp add: spec_delta_def) linarith
qed

text \<open>
  The shift discards the low byte: a difference of \<open>0x01ff\<close>, which rounding to the
  nearest multiple of 256 would take to 2, gives the delta 1.
\<close>

lemma truncation_not_rounding:
  "drop_bit 8 (absDiff 0x01ff 0) = 1" "spec_delta 0x01ff 0 = 1"
  by (simp_all add: absDiff_def spec_delta_def)

lemma spec_delta_commute: "spec_delta c1 c2 = spec_delta c2 c1"
  by (simp add: spec_delta_def)

lemma delta3_commute: "delta3 img1 img2 x y = delta3 img2 img1 x y"
  by (simp add: delta3_def spec_delta_commute split: prod.splits)

lemma delta3_le:
  assumes "valid_color (At img1 x y)" "valid_color (At img22 x y)"
  shows "delta3 img1 img22 x y \<le> 765"
proof -
  obtain r1 g1 b1 a1 where c1: "At img1 x y = (r1, g1, b1, a1)"
    by (cases "At img1 x y") auto
  obtain r2 g2 b2 a2 where c2: "At img22 x y = (r2, g2, b2, a2)"
    by (cases "At img22 x y") auto
  from assms c1 c2 have "spec_delta r1 r2 \<le> 255" "spec_delta g1 g2 \<le> 255" "spec_delta b1 b2 \<le> 255"
    by (simp_all add: valid_color_def spec_delta_le)
  then show ?thesis
    by (simp add: delta3_def c1 c2)
qed

lemma pixel_body_eq:
  "steps_as (pixel_body img1 img22 m) (diff_color img1 img22 m) (delta3 img1 img22)"
  unfolding steps_as_def
  by (simp add: pixel_body_def diff_color_def delta3_def Let_def uint8_amp_word
      uint8_of_float64_consts delta_zero_iff ucast_delta unat_channel_delta
      spec_amplified_def split: prod.splits)

lemma pixel_body_main_eq: "pixel_body_main img1 img22 = pixel_body img1 img22 False"
  by (intro ext) (simp add: pixel_body_main_def pixel_body_def Let_def split: prod.splits)

lemma diff_color_False:
  "diff_color img1 img22 False x y = amplified_pixel (At img1 x y) (At img22 x y)"
  by (simp add: diff_color_def amplified_pixel_def split: prod.splits)

lemma diff_color_True:
  "diff_color img1 img22 True x y = monochrome_pixel (At img1 x y) (At img22 x y)"
  by (simp add: diff_color_def monochrome_pixel_def split: prod.splits)


subsection \<open>The two loops\<close>

text \<open>
  Each loop is unfolded one iteration at a time; the defining equations leave the
  simplifier's rule set.
\<close>

lemma int_interval_step: "x < xmax \<Longrightarrow> {x..<xmax} = insert x {x + 1..<xmax}" for x :: int
  by auto

lemma sum_int_interval_step:
  "x < xmax \<Longrightarrow> sum f {x..<xmax} = f x + sum f {x + 1..<xmax}" for x :: int and f :: "int \<Rightarrow> nat"
  by (simp add: int_interval_step)

lemma row_loop_unfold:
  "x < xmax \<Longrightarrow> row_loop body xmax y x st = row_loop body xmax y (x + 1) (body x y st)"
  "\<not> x < xmax \<Longrightarrow> row_loop body xmax y x st = st"
  by (simp_all add: row_loop.simps [of body xmax y x st] del: row_loop.simps)

lemma rows_loop_unfold:
  "y < MaxY b \<Longrightarrow> rows_loop body b y st =
     rows_loop body b (y + 1) (row_loop body (MaxX b) y (MinX b) st)"
  "\<not> y < MaxY b \<Longrightarrow> rows_loop body b y st = st"
  by (simp_all add: rows_loop.simps [of body b y st] del: rows_loop.simps)

declare row_loop.simps [simp del] rows_loop.simps [simp del]

lemma row_loop_pixelCount:
  assumes "steps_as body col dl"
  shows "pixelCount (row_loop body xmax y x st) = pixelCount st + of_nat (nat (xmax - x))"
  using assms
proof (induction body xmax y x st rule: row_loop.induct)
  case (1 body xmax y x st)
  show ?case
  proof (cases "x < xmax")
    case True
    then have "nat (xmax - x) = Suc (nat (xmax - (x + 1)))" by simp
    moreover have "pixelCount (body x y st) = pixelCount st + 1"
      using "1.prems" by (simp add: steps_as_def)
    ultimately show ?thesis
      using True 1 by (simp add: row_loop_unfold)
  next
    case False
    then show ?thesis by (simp add: row_loop_unfold)
  qed
qed

lemma row_loop_totalDiff:
  assumes "steps_as body col dl"
  shows "totalDiff (row_loop body xmax y x st) =
     totalDiff st + of_nat (\<Sum>i \<in> {x..<xmax}. dl i y)"
  using assms
proof (induction body xmax y x st rule: row_loop.induct)
  case (1 body xmax y x st)
  show ?case
  proof (cases "x < xmax")
    case True
    moreover have "totalDiff (body x y st) = totalDiff st + of_nat (dl x y)"
      using "1.prems" by (simp add: steps_as_def)
    ultimately show ?thesis
      using 1 by (simp add: row_loop_unfold sum_int_interval_step)
  next
    case False
    then show ?thesis by (simp add: row_loop_unfold)
  qed
qed

lemma row_loop_Rect:
  assumes "steps_as body col dl"
  shows "Rect (diff (row_loop body xmax y x st)) = Rect (diff st)"
  using assms
proof (induction body xmax y x st rule: row_loop.induct)
  case (1 body xmax y x st)
  show ?case
  proof (cases "x < xmax")
    case True
    moreover have "Rect (diff (body x y st)) = Rect (diff st)"
      using "1.prems" by (simp add: steps_as_def RGBA_Set_def)
    ultimately show ?thesis
      using 1 by (simp add: row_loop_unfold)
  next
    case False
    then show ?thesis by (simp add: row_loop_unfold)
  qed
qed

lemma row_loop_Pix:
  assumes "steps_as body col dl"
  shows "Pix (diff (row_loop body xmax y x st)) p =
     (if snd p = y \<and> x \<le> fst p \<and> fst p < xmax \<and> Point_In p (Rect (diff st))
      then col (fst p) y else Pix (diff st) p)"
  using assms
proof (induction body xmax y x st rule: row_loop.induct)
  case (1 body xmax y x st)
  show ?case
  proof (cases "x < xmax")
    case True
    have step: "diff (body x y st) = RGBA_Set (diff st) x y (col x y)"
      using "1.prems" by (simp add: steps_as_def)
    have R: "Rect (diff (body x y st)) = Rect (diff st)"
      by (simp add: step RGBA_Set_def)
    have P: "Pix (diff (body x y st)) p =
        (if p = (x, y) \<and> Point_In (x, y) (Rect (diff st)) then col x y else Pix (diff st) p)"
      by (simp add: step RGBA_Set_def)
    have "Pix (diff (row_loop body xmax y x st)) p =
        Pix (diff (row_loop body xmax y (x + 1) (body x y st))) p"
      by (simp only: row_loop_unfold(1) [OF True])
    also have "\<dots> =
        (if snd p = y \<and> x + 1 \<le> fst p \<and> fst p < xmax \<and> Point_In p (Rect (diff st))
         then col (fst p) y else Pix (diff (body x y st)) p)"
      using "1.IH" [OF True "1.prems"] by (simp only: R)
    also have "\<dots> =
        (if snd p = y \<and> x \<le> fst p \<and> fst p < xmax \<and> Point_In p (Rect (diff st))
         then col (fst p) y else Pix (diff st) p)"
    proof -
      have E: "(x + 1 \<le> fst p) = (x \<le> fst p \<and> fst p \<noteq> x)" by auto
      show ?thesis unfolding P E using True by (cases p) auto
    qed
    finally show ?thesis .
  next
    case False
    then have "row_loop body xmax y x st = st"
      by (rule row_loop_unfold(2))
    with False show ?thesis by auto
  qed
qed

lemma rows_loop_pixelCount:
  assumes "steps_as body col dl"
  shows "pixelCount (rows_loop body b y st) =
     pixelCount st + of_nat (nat (MaxY b - y) * nat (Dx b))"
  using assms
proof (induction body b y st rule: rows_loop.induct)
  case (1 body b y st)
  show ?case
  proof (cases "y < MaxY b")
    case True
    then have "nat (MaxY b - y) = Suc (nat (MaxY b - (y + 1)))" by simp
    with True 1 show ?thesis
      by (simp add: rows_loop_unfold row_loop_pixelCount [OF "1.prems"] Dx_def algebra_simps)
  next
    case False
    then show ?thesis by (simp add: rows_loop_unfold)
  qed
qed

lemma rows_loop_totalDiff:
  assumes "steps_as body col dl"
  shows "totalDiff (rows_loop body b y st) =
     totalDiff st + of_nat (\<Sum>j \<in> {y..<MaxY b}. \<Sum>i \<in> {MinX b..<MaxX b}. dl i j)"
  using assms
proof (induction body b y st rule: rows_loop.induct)
  case (1 body b y st)
  show ?case
  proof (cases "y < MaxY b")
    case True
    with 1 show ?thesis
      by (simp add: rows_loop_unfold row_loop_totalDiff [OF "1.prems"] sum_int_interval_step algebra_simps)
  next
    case False
    then show ?thesis by (simp add: rows_loop_unfold)
  qed
qed

lemma rows_loop_Rect:
  assumes "steps_as body col dl"
  shows "Rect (diff (rows_loop body b y st)) = Rect (diff st)"
  using assms
proof (induction body b y st rule: rows_loop.induct)
  case (1 body b y st)
  show ?case
  proof (cases "y < MaxY b")
    case True
    with 1 show ?thesis
      by (simp add: rows_loop_unfold row_loop_Rect [OF "1.prems"])
  next
    case False
    then show ?thesis by (simp add: rows_loop_unfold)
  qed
qed

lemma rows_loop_Pix:
  assumes "steps_as body col dl"
  shows "Pix (diff (rows_loop body b y st)) p =
     (if y \<le> snd p \<and> snd p < MaxY b \<and> MinX b \<le> fst p \<and> fst p < MaxX b
         \<and> Point_In p (Rect (diff st))
      then col (fst p) (snd p) else Pix (diff st) p)"
  using assms
proof (induction body b y st rule: rows_loop.induct)
  case (1 body b y st)
  let ?st' = "row_loop body (MaxX b) y (MinX b) st"
  show ?case
  proof (cases "y < MaxY b")
    case True
    have R: "Rect (diff ?st') = Rect (diff st)"
      by (rule row_loop_Rect [OF "1.prems"])
    have "Pix (diff (rows_loop body b y st)) p = Pix (diff (rows_loop body b (y + 1) ?st')) p"
      by (simp only: rows_loop_unfold(1) [OF True])
    also have "\<dots> =
        (if y + 1 \<le> snd p \<and> snd p < MaxY b \<and> MinX b \<le> fst p \<and> fst p < MaxX b
            \<and> Point_In p (Rect (diff st))
         then col (fst p) (snd p) else Pix (diff ?st') p)"
      using "1.IH" [OF True "1.prems"] by (simp only: R)
    also have "\<dots> =
        (if y \<le> snd p \<and> snd p < MaxY b \<and> MinX b \<le> fst p \<and> fst p < MaxX b
            \<and> Point_In p (Rect (diff st))
         then col (fst p) (snd p) else Pix (diff st) p)"
      using True by (auto simp add: row_loop_Pix [OF "1.prems"])
    finally show ?thesis .
  next
    case False
    then have "rows_loop body b y st = st"
      by (rule rows_loop_unfold(2))
    with False show ?thesis by auto
  qed
qed

lemma rows_loop_result:
  assumes "steps_as body col dl"
  shows "rows_loop body b (MinY b) \<lparr>diff = \<lparr>Rect = b, Pix = (\<lambda>_. (0, 0, 0, 0))\<rparr>, totalDiff = 0, pixelCount = 0\<rparr> =
     \<lparr>diff = \<lparr>Rect = b, Pix = (\<lambda>p. if Point_In p b then col (fst p) (snd p) else (0, 0, 0, 0))\<rparr>,
      totalDiff = of_nat (\<Sum>j \<in> {MinY b..<MaxY b}. \<Sum>i \<in> {MinX b..<MaxX b}. dl i j),
      pixelCount = of_nat (area b)\<rparr>"
  (is "?st = _")
proof -
  have "Rect (diff ?st) = b"
    by (simp add: rows_loop_Rect [OF assms])
  moreover have "Pix (diff ?st) = (\<lambda>p. if Point_In p b then col (fst p) (snd p) else (0, 0, 0, 0))"
    by (intro ext) (auto simp add: rows_loop_Pix [OF assms] Point_In_def)
  ultimately have "diff ?st = \<lparr>Rect = b, Pix = (\<lambda>p. if Point_In p b then col (fst p) (snd p) else (0, 0, 0, 0))\<rparr>"
    by (intro RGBAImage.equality) simp_all
  moreover have "totalDiff ?st = of_nat (\<Sum>j \<in> {MinY b..<MaxY b}. \<Sum>i \<in> {MinX b..<MaxX b}. dl i j)"
    by (simp add: rows_loop_totalDiff [OF assms])
  moreover have "pixelCount ?st = of_nat (area b)"
    by (simp add: rows_loop_pixelCount [OF assms] area_def Dy_def mult.commute)
  ultimately show ?thesis
    by (intro diff_state.equality) simp_all
qed


subsection \<open>The result in closed form\<close>

text \<open>
  \<^verbatim>\<open>ComputeImageDiffFast\<close> panics exactly when \<^verbatim>\<open>image.NewRGBA\<close> does; otherwise
  it returns the image \<open>diff_image\<close>, the quotient \<open>mae_of\<close> of the accumulated total
  and three times the pixel count, and the pixel count, the accumulators being taken
  modulo \<open>2 ^ 64\<close>. The older \<^verbatim>\<open>computeImageDiffFast\<close> is the instance with the
  bilinear algorithm and without monochrome mode.
\<close>

lemma mul3NonNeg_neg_iff:
  "mul3NonNeg 4 w h < 0 \<longleftrightarrow> w < 0 \<or> h < 0 \<or> 2 ^ 62 \<le> w \<or> 2 ^ 63 \<le> 4 * w * h"
proof (cases "w < 0 \<or> h < 0")
  case True
  then show ?thesis by (auto simp add: mul3NonNeg_def)
next
  case False
  then have "\<not> h * w < 0" by (simp add: not_less)
  with False show ?thesis by (auto simp add: mul3NonNeg_def)
qed

lemma ComputeImageDiffFast_eq:
  "ComputeImageDiffFast rsz img1 img2 algo m =
     (if mul3NonNeg 4 (Dx (Bounds img1)) (Dy (Bounds img1)) < 0 then Inl Panic
      else Inr (diff_image img1 (reconcile rsz img1 img2 algo) m,
                mae_of (total_delta img1 (reconcile rsz img1 img2 algo) (Bounds img1))
                       (area (Bounds img1)),
                of_nat (area (Bounds img1))))"
  by (simp add: ComputeImageDiffFast_def NewRGBA_def Let_def diff_image_def mae_of_def
      total_delta_def rows_loop_result [OF pixel_body_eq])

lemma computeImageDiffFast_eq:
  "computeImageDiffFast rsz img1 img2 = ComputeImageDiffFast rsz img1 img2 Bilinear False"
  unfolding computeImageDiffFast_def ComputeImageDiffFast_def reconcile_def pixel_body_main_eq
  by (simp add: Let_def split: sum.splits)

lemma ComputeImageDiffFast_Inr:
  assumes "ComputeImageDiffFast rsz img1 img2 algo m = Inr (d, mae, n)"
  shows "\<not> mul3NonNeg 4 (Dx (Bounds img1)) (Dy (Bounds img1)) < 0"
    and "d = diff_image img1 (reconcile rsz img1 img2 algo) m"
    and "mae = mae_of (total_delta img1 (reconcile rsz img1 img2 algo) (Bounds img1))
                 (area (Bounds img1))"
    and "n = of_nat (area (Bounds img1))"
  using assms by (simp_all add: ComputeImageDiffFast_eq split: if_splits)

lemma ComputeImageDiffFast_returns:
  assumes "\<not> mul3NonNeg 4 (Dx (Bounds img1)) (Dy (Bounds img1)) < 0"
  shows "\<exists>d mae n. ComputeImageDiffFast rsz img1 img2 algo m = Inr (d, mae, n)"
  using assms by (simp add: ComputeImageDiffFast_eq)

lemma total_delta_le:
  assumes "valid_within b img1" "valid_within b img22"
  shows "total_delta img1 img22 b \<le> 765 * area b"
proof -
  have row: "(\<Sum>i \<in> {MinX b..<MaxX b}. delta3 img1 img22 i j) \<le> nat (Dx b) * 765"
    if "j \<in> {MinY b..<MaxY b}" for j
  proof -
    have "(\<Sum>i \<in> {MinX b..<MaxX b}. delta3 img1 img22 i j) \<le> of_nat (card {MinX b..<MaxX b}) * 765"
    proof (rule sum_bounded_above)
      fix i assume "i \<in> {MinX b..<MaxX b}"
      with that assms have "valid_color (At img1 i j)" "valid_color (At img22 i j)"
        by (simp_all add: valid_within_def)
      then show "delta3 img1 img22 i j \<le> 765" by (rule delta3_le)
    qed
    then show ?thesis by (simp add: Dx_def)
  qed
  have "total_delta img1 img22 b \<le> of_nat (card {MinY b..<MaxY b}) * (nat (Dx b) * 765)"
    unfolding total_delta_def by (rule sum_bounded_above) (rule row)
  then show ?thesis by (simp add: area_def Dy_def mult_ac)
qed

lemma total_delta_commute: "total_delta img1 img2 b = total_delta img2 img1 b"
  by (simp add: total_delta_def delta3_commute)

lemma area_pos:
  assumes "\<not> Rect_Empty b"
  shows "0 < area b" "int (area b) = Dx b * Dy b"
  using assms by (simp_all add: Rect_Empty_def area_def Dx_def Dy_def)

lemma returned_area:
  assumes "\<not> Rect_Empty b" and "\<not> mul3NonNeg 4 (Dx b) (Dy b) < 0"
  shows "0 < area b" "3 * area b < 2 ^ 64" "int (area b) = Dx b * Dy b"
proof -
  show pos: "0 < area b" and ar: "int (area b) = Dx b * Dy b"
    using assms(1) by (rule area_pos)+
  from assms(2) have "4 * (Dx b * Dy b) < 2 ^ 63"
    by (simp add: mul3NonNeg_neg_iff mult.assoc)
  with ar have "int (4 * area b) < int (2 ^ 63)" by simp
  then have "4 * area b < 2 ^ 63" by (rule of_nat_less_imp_less)
  then show "3 * area b < 2 ^ 64" by simp
qed

lemma mae_of_Finite:
  assumes "0 < n" "3 * n < 2 ^ 53" "t < 2 ^ 53"
  shows "mae_of t n = Finite (round64 (real t / real (n * 3)))"
proof -
  from assms(2) have n: "n < 2 ^ 64" "3 * n < 2 ^ 64" by simp_all
  from assms(3) have t: "t < 2 ^ 64" by simp
  have "unat (of_nat n * 3 :: uint64) = n * 3"
    using n by (simp add: unat_word_ariths unat_of_nat)
  moreover have "unat (of_nat t :: uint64) = t"
    using t by (simp add: unat_of_nat)
  moreover have "round64 (real (n * 3)) = real (n * 3)"
    using assms(2) by (intro round64_of_nat) (simp add: mult.commute)
  moreover have "round64 (real t) = real t"
    using assms(3) by (rule round64_of_nat)
  ultimately show ?thesis
    using assms(1) by (simp add: mae_of_def uint64_to_float64_def float64_div_def)
qed


subsection \<open>Example images\<close>

text \<open>
  A one-pixel black image and a two-pixel image, black then white, compared in both
  orders with the nearest-sample instance of the resize parameter.
\<close>

lemma black_white_Bounds: "Bounds black_white = \<lparr>MinX = 0, MinY = 0, MaxX = 2, MaxY = 1\<rparr>"
  by (simp add: black_white_def image_of_rows_def image_Rect_def Let_def)

lemma one_black_Bounds: "Bounds one_black = \<lparr>MinX = 0, MinY = 0, MaxX = 1, MaxY = 1\<rparr>"
  by (simp add: one_black_def image_of_rows_def image_Rect_def Let_def)

lemma one_black_At: "At one_black 0 0 = black"
  by (simp add: one_black_def image_of_rows_def image_Rect_def Point_In_def Let_def)

lemma black_white_At: "At black_white 0 0 = black" "At black_white 1 0 = white"
  by (simp_all add: black_white_def image_of_rows_def image_Rect_def Point_In_def Let_def)

lemma resized_black_white_At:
  "At (reconcile nearest_resize one_black black_white NearestNeighbor) 0 0 = white"
  by (simp add: reconcile_def nearest_resize_def one_black_Bounds black_white_Bounds Rect_Eq_def
      Rect_Empty_def Dx_def Dy_def image_Rect_def Point_In_def black_white_At Let_def)

lemma resized_one_black_At:
  "At (reconcile nearest_resize black_white one_black NearestNeighbor) 0 0 = black"
  "At (reconcile nearest_resize black_white one_black NearestNeighbor) 1 0 = black"
  by (simp_all add: reconcile_def nearest_resize_def one_black_Bounds black_white_Bounds Rect_Eq_def
      Rect_Empty_def Dx_def Dy_def image_Rect_def Point_In_def one_black_At Let_def)

lemma amplified_black_white: "amplified_pixel black white = (255, 255, 255, 255)"
  by (simp add: amplified_pixel_def spec_amplified_def spec_delta_def black_def white_def)

lemma monochrome_black_white: "monochrome_pixel black white = (240, 0, 0, 255)"
  by (simp add: monochrome_pixel_def spec_delta_def black_def white_def)

lemma valid_black_white: "valid_color black" "valid_color white"
  by (simp_all add: valid_color_def black_def white_def)

lemma row_interval: "{0..<2::int} = {0, 1}" "{0..<1::int} = {0}"
  by auto

lemma metric_one_black_vs_black_white:
  "map_sum id snd (ComputeImageDiffFast nearest_resize one_black black_white NearestNeighbor False)
     = Inr (Finite 255, 1)"
  by code_simp

lemma metric_black_white_vs_one_black:
  "map_sum id snd (ComputeImageDiffFast nearest_resize black_white one_black NearestNeighbor False)
     = Inr (Finite (255 / 2), 2)"
  by code_simp


subsection \<open>Claims about the difference engine\<close>

text \<open>
  Claim C1. In normal (non-monochrome) mode, whenever \<^verbatim>\<open>ComputeImageDiffFast\<close>
  returns, every pixel inside the first image's bounds holds, per colour channel, the
  value \<open>min (5 * (|c1 - c2| div 2 ^ 8)) 255\<close>, where \<open>c1\<close> and \<open>c2\<close> are the 16-bit
  channel values of the first image and of the reconciled second image at that pixel
  and the division is the truncating right shift by 8; the alpha channel is 255.
\<close>

theorem C1_amplified_difference:
  assumes "ComputeImageDiffFast rsz img1 img2 algo False = Inr (d, mae, n)"
      and "Point_In (x, y) (Bounds img1)"
  shows "Pix d (x, y) =
           amplified_pixel (At img1 x y) (At (reconcile rsz img1 img2 algo) x y)"
proof -
  from assms(1) have "d = diff_image img1 (reconcile rsz img1 img2 algo) False"
    by (simp add: ComputeImageDiffFast_eq split: if_splits)
  with assms(2) show ?thesis
    by (simp add: diff_image_def diff_color_False)
qed


text \<open>
  Witness for C1: a black pixel against the white pixel that the resize samples gives
  the clamped value 255 in every channel.
\<close>

theorem C1_amplified_difference_witness:
  "\<exists>d mae n.
      ComputeImageDiffFast nearest_resize one_black black_white NearestNeighbor False
        = Inr (d, mae, n)
    \<and> Point_In (0, 0) (Bounds one_black)
    \<and> Pix d (0, 0) = (255, 255, 255, 255)"
proof -
  have "\<not> mul3NonNeg 4 (Dx (Bounds one_black)) (Dy (Bounds one_black)) < 0"
    by code_simp
  then obtain d mae n where
    r: "ComputeImageDiffFast nearest_resize one_black black_white NearestNeighbor False
          = Inr (d, mae, n)"
    using ComputeImageDiffFast_returns by blast
  have p: "Point_In (0, 0) (Bounds one_black)"
    by code_simp
  have v: "amplified_pixel (At one_black 0 0)
             (At (reconcile nearest_resize one_black black_white NearestNeighbor) 0 0)
           = (255, 255, 255, 255)"
    by (simp add: one_black_At resized_black_white_At amplified_black_white)
  from C1_amplified_difference [OF r p] v have "Pix d (0, 0) = (255, 255, 255, 255)"
    by simp
  with r p show ?thesis
    by blast
qed


text \<open>
  Claim C2. When the first image's bounds are not empty and the channels read lie in
  \<open>[0, 0xffff]\<close>, a returning call gives a pixel count equal to width times height of
  the first image's bounds and a mean absolute error equal to the \<^verbatim>\<open>float64\<close>
  quotient of \<^verbatim>\<open>totalDiff\<close> by three times the pixel count, where \<^verbatim>\<open>totalDiff\<close>
  is the sum over all pixels of the three truncated, unamplified channel deltas; the
  mean absolute error lies in \<open>[0, 255]\<close>. The sizes are those for which the largest
  possible sum, \<open>765 * width * height\<close>, is below \<open>2 ^ 53\<close>, so that both conversions
  to \<^verbatim>\<open>float64\<close> are exact and only the division rounds.
\<close>

theorem C2_metric:
  assumes "\<not> Rect_Empty (Bounds img1)"
      and "765 * (Dx (Bounds img1) * Dy (Bounds img1)) < 2 ^ 53"
      and "valid_within (Bounds img1) img1"
      and "valid_within (Bounds img1) (reconcile rsz img1 img2 algo)"
      and "ComputeImageDiffFast rsz img1 img2 algo m = Inr (d, mae, n)"
      and "t = total_delta img1 (reconcile rsz img1 img2 algo) (Bounds img1)"
  shows "int (unat n) = Dx (Bounds img1) * Dy (Bounds img1)
       \<and> mae = Finite (round64 (real t / real (unat n * 3)))
       \<and> 0 \<le> round64 (real t / real (unat n * 3))
       \<and> round64 (real t / real (unat n * 3)) \<le> 255"
proof -
  let ?b = "Bounds img1"
  note ret = ComputeImageDiffFast_Inr [OF assms(5)]
  note ar = returned_area [OF assms(1) ret(1)]
  have un: "unat n = area ?b"
    using ar(2) by (simp add: ret(4) unat_of_nat)
  have cnt: "int (unat n) = Dx ?b * Dy ?b"
    by (simp only: un ar(3))
  from assms(2) ar(3) have "int (765 * area ?b) < int (2 ^ 53)"
    by simp
  then have small: "765 * area ?b < 2 ^ 53"
    by (rule of_nat_less_imp_less)
  have tle: "t \<le> 765 * area ?b"
    unfolding assms(6) using assms(3,4) by (rule total_delta_le)
  have mae: "mae = Finite (round64 (real t / real (unat n * 3)))"
    using ar(1) small tle by (simp only: ret(3) un assms(6) [symmetric]) (simp add: mae_of_Finite)
  have "real t \<le> real (765 * area ?b)"
    using tle by (rule of_nat_mono)
  also have "\<dots> = 255 * real (area ?b * 3)"
    by simp
  finally have le: "real t / real (area ?b * 3) \<le> of_int 255"
    using ar(1) by (simp add: divide_le_eq)
  have nn: "0 \<le> real t / real (area ?b * 3)"
    by (rule divide_nonneg_nonneg) (rule of_nat_0_le_iff)+
  note b = round64_bounds [OF nn le]
  from cnt mae b show ?thesis
    by (simp add: un)
qed


text \<open>
  Witness for C2: the two-pixel image against the one-pixel black image resized to two
  black pixels differs in one pixel by 255 per channel, so the error is \<open>765 / 6\<close>.
\<close>

theorem C2_metric_witness:
  "\<not> Rect_Empty (Bounds black_white)
   \<and> 765 * (Dx (Bounds black_white) * Dy (Bounds black_white)) < 2 ^ 53
   \<and> valid_within (Bounds black_white) black_white
   \<and> valid_within (Bounds black_white)
        (reconcile nearest_resize black_white one_black NearestNeighbor)
   \<and> (\<exists>d. ComputeImageDiffFast nearest_resize black_white one_black NearestNeighbor False
           = Inr (d, Finite (255 / 2), 2))
   \<and> Dx (Bounds black_white) * Dy (Bounds black_white) = 2"
proof -
  have h1: "\<not> Rect_Empty (Bounds black_white)"
    by code_simp
  have h2: "765 * (Dx (Bounds black_white) * Dy (Bounds black_white)) < 2 ^ 53"
    by code_simp
  have h3: "valid_within (Bounds black_white) black_white"
    by (simp add: valid_within_def black_white_Bounds row_interval black_white_At
        valid_black_white)
  have h4: "valid_within (Bounds black_white)
              (reconcile nearest_resize black_white one_black NearestNeighbor)"
    by (simp add: valid_within_def black_white_Bounds row_interval resized_one_black_At
        valid_black_white)
  have "\<not> mul3NonNeg 4 (Dx (Bounds black_white)) (Dy (Bounds black_white)) < 0"
    by code_simp
  then obtain d mae n where
    r: "ComputeImageDiffFast nearest_resize black_white one_black NearestNeighbor False
          = Inr (d, mae, n)"
    using ComputeImageDiffFast_returns by blast
  from r metric_black_white_vs_one_black have v: "mae = Finite (255 / 2)" "n = 2"
    by simp_all
  from C2_metric [OF h1 h2 h3 h4 r refl]
  have "int (unat n) = Dx (Bounds black_white) * Dy (Bounds black_white)"
    by blast
  with v have "Dx (Bounds black_white) * Dy (Bounds black_white) = 2"
    by simp
  moreover from r v
  have "\<exists>d. ComputeImageDiffFast nearest_resize black_white one_black NearestNeighbor False
           = Inr (d, Finite (255 / 2), 2)"
    by blast
  ultimately show ?thesis
    using h1 h2 h3 h4 by (intro conjI)
qed


text \<open>
  Claim C3. In monochrome mode, whenever \<^verbatim>\<open>ComputeImageDiffFast\<close> returns, a pixel
  inside the first image's bounds is black \<open>(0, 0, 0)\<close> when its three truncated channel
  deltas are all zero and is \<open>(240, 0, 0)\<close> otherwise, whatever the size of the
  difference; the alpha channel is 255 in both cases.
\<close>

theorem C3_monochrome_difference:
  assumes "ComputeImageDiffFast rsz img1 img2 algo True = Inr (d, mae, n)"
      and "Point_In (x, y) (Bounds img1)"
  shows "Pix d (x, y) =
           monochrome_pixel (At img1 x y) (At (reconcile rsz img1 img2 algo) x y)"
proof -
  from assms(1) have "d = diff_image img1 (reconcile rsz img1 img2 algo) True"
    by (simp add: ComputeImageDiffFast_eq split: if_splits)
  with assms(2) show ?thesis
    by (simp add: diff_image_def diff_color_True)
qed


text \<open>
  Witness for C3: a black pixel against a white one becomes \<open>(240, 0, 0, 255)\<close>.
\<close>

theorem C3_monochrome_difference_witness:
  "\<exists>d mae n.
      ComputeImageDiffFast nearest_resize one_black black_white NearestNeighbor True
        = Inr (d, mae, n)
    \<and> Point_In (0, 0) (Bounds one_black)
    \<and> Pix d (0, 0) = (240, 0, 0, 255)"
proof -
  have "\<not> mul3NonNeg 4 (Dx (Bounds one_black)) (Dy (Bounds one_black)) < 0"
    by code_simp
  then obtain d mae n where
    r: "ComputeImageDiffFast nearest_resize one_black black_white NearestNeighbor True
          = Inr (d, mae, n)"
    using ComputeImageDiffFast_returns by blast
  have p: "Point_In (0, 0) (Bounds one_black)"
    by code_simp
  have v: "monochrome_pixel (At one_black 0 0)
             (At (reconcile nearest_resize one_black black_white NearestNeighbor) 0 0)
           = (240, 0, 0, 255)"
    by (simp add: one_black_At resized_black_white_At monochrome_black_white)
  from C3_monochrome_difference [OF r p] v have "Pix d (0, 0) = (240, 0, 0, 255)"
    by simp
  with r p show ?thesis
    by blast
qed


text \<open>
  Claim C8 as stated, that the mean absolute error is a well-defined number for every
  input pair, fails: for a first image with empty bounds no pixel is visited, the
  function divides \<open>0.0\<close> by \<open>0.0\<close> and returns NaN with pixel count 0.
\<close>

theorem C8_empty_image_counterexample:
  "map_sum id snd
     (ComputeImageDiffFast nearest_resize (image_of_rows []) one_black Bilinear False)
   = Inr (NaN, 0)"
  by code_simp


text \<open>
  Claim C8, amended. When the first image's bounds are not empty, a returning call has
  divided by a non-zero \<^verbatim>\<open>float64(pixelCount * 3)\<close>, and the mean absolute error it
  returns is the finite quotient.
\<close>

theorem C8_metric_defined:
  assumes "\<not> Rect_Empty (Bounds img1)"
      and "ComputeImageDiffFast rsz img1 img2 algo m = Inr (d, mae, n)"
  shows "uint64_to_float64 (n * 3) \<noteq> 0
       \<and> mae = Finite (round64
                 (uint64_to_float64
                    (of_nat (total_delta img1 (reconcile rsz img1 img2 algo) (Bounds img1)))
                  / uint64_to_float64 (n * 3)))"
proof -
  let ?b = "Bounds img1"
  note ret = ComputeImageDiffFast_Inr [OF assms(2)]
  note ar = returned_area [OF assms(1) ret(1)]
  from ar(2) have "unat (of_nat (area ?b) * 3 :: uint64) = area ?b * 3"
    by (simp add: unat_word_ariths unat_of_nat)
  with ar(1) have "0 < real (unat (n * 3))"
    by (simp add: ret(4))
  then have "0 < uint64_to_float64 (n * 3)"
    unfolding uint64_to_float64_def by (rule round64_pos)
  then show ?thesis
    by (simp add: ret(3,4) mae_of_def float64_div_def)
qed


text \<open>
  Witness for the amended C8: the one-pixel image gives the divisor 3 and the error 255.
\<close>

theorem C8_metric_defined_witness:
  "\<not> Rect_Empty (Bounds one_black)
   \<and> (\<exists>d mae n.
         ComputeImageDiffFast nearest_resize one_black black_white NearestNeighbor False
           = Inr (d, mae, n)
       \<and> uint64_to_float64 (n * 3) \<noteq> 0 \<and> mae = Finite 255)"
proof -
  have h: "\<not> Rect_Empty (Bounds one_black)"
    by code_simp
  have "\<not> mul3NonNeg 4 (Dx (Bounds one_black)) (Dy (Bounds one_black)) < 0"
    by code_simp
  then obtain d mae n where
    r: "ComputeImageDiffFast nearest_resize one_black black_white NearestNeighbor False
          = Inr (d, mae, n)"
    using ComputeImageDiffFast_returns by blast
  from C8_metric_defined [OF h r] have "uint64_to_float64 (n * 3) \<noteq> 0"
    by simp
  moreover from r metric_one_black_vs_black_white have "mae = Finite 255"
    by simp
  ultimately show ?thesis
    using h r by blast
qed


text \<open>
  Claim C9 as stated, that the mean absolute error is the same for \<open>(A, B)\<close> and
  \<open>(B, A)\<close>, fails when the bounds differ: the second argument is resized to the first,
  so a one-pixel black image against black-then-white gives 255 in one order and
  \<open>255 / 2\<close> in the other.
\<close>

theorem C9_asymmetry_counterexample:
  "map_sum id (fst \<circ> snd)
     (ComputeImageDiffFast nearest_resize one_black black_white NearestNeighbor False)
     = Inr (Finite 255)
   \<and> map_sum id (fst \<circ> snd)
     (ComputeImageDiffFast nearest_resize black_white one_black NearestNeighbor False)
     = Inr (Finite (255 / 2))
   \<and> Finite 255 \<noteq> Finite (255 / 2)"
  by code_simp


text \<open>
  Claim C9, amended. For two images with the same non-empty bounds, for which no resize
  takes place, the calls in both orders return the same mean absolute error and the
  same pixel count.
\<close>

theorem C9_symmetric_on_equal_bounds:
  assumes "Bounds img1 = Bounds img2"
      and "\<not> Rect_Empty (Bounds img1)"
  shows "map_sum id snd (ComputeImageDiffFast rsz img1 img2 algo m) =
         map_sum id snd (ComputeImageDiffFast rsz img2 img1 algo m)"
  using assms(1)
  by (simp add: ComputeImageDiffFast_eq reconcile_def Rect_Eq_def total_delta_commute)


text \<open>
  Witness for the amended C9: the two-pixel image and a white image of the same bounds.
\<close>

theorem C9_symmetric_on_equal_bounds_witness:
  "Bounds black_white = Bounds (solid_image 2 1 white)
   \<and> \<not> Rect_Empty (Bounds black_white)
   \<and> map_sum id snd
       (ComputeImageDiffFast nearest_resize black_white (solid_image 2 1 white) Bilinear False)
     = map_sum id snd
       (ComputeImageDiffFast nearest_resize (solid_image 2 1 white) black_white Bilinear False)"
proof -
  have h1: "Bounds black_white = Bounds (solid_image 2 1 white)"
    by code_simp
  have h2: "\<not> Rect_Empty (Bounds black_white)"
    by code_simp
  from C9_symmetric_on_equal_bounds [OF h1 h2] h1 h2 show ?thesis
    by simp
qed


text \<open>
  Claim C10. The monochrome flag changes only the visualization: with the flag set and
  with it cleared, \<^verbatim>\<open>ComputeImageDiffFast\<close> either panics in both calls or returns
  the same mean absolute error and the same pixel count in both.
\<close>

theorem C10_monochrome_keeps_metric:
  "map_sum id snd (ComputeImageDiffFast rsz img1 img2 algo True) =
   map_sum id snd (ComputeImageDiffFast rsz img1 img2 algo False)"
  by (simp add: ComputeImageDiffFast_eq)


text \<open>
  An instance of C10: the monochrome call on the example pair returns the metric of the
  normal call.
\<close>

theorem C10_monochrome_keeps_metric_witness:
  "map_sum id snd
     (ComputeImageDiffFast nearest_resize one_black black_white NearestNeighbor True)
   = Inr (Finite 255, 1)"
  using C10_monochrome_keeps_metric
    [of nearest_resize one_black black_white NearestNeighbor]
    metric_one_black_vs_black_white
  by simp


section \<open>Properties of geometry and cropping\<close>

subsection \<open>Rounding errors of the scale factors\<close>

text \<open>
  One \<^verbatim>\<open>float32\<close> rounding keeps a positive value within the factor \<open>c32\<close>; the
  factors multiply along a computation, and four of them stay below \<open>1 + 1 / 2 ^ 21\<close>.
\<close>

lemma round32_pos: "0 < x \<Longrightarrow> 0 < round32 x"
  by (simp add: round32_def ieee_round_pos)

lemma round32_of_int:
  assumes "\<bar>z\<bar> < 2 ^ 24"
  shows "float32_of_int z = of_int z"
  unfolding float32_of_int_def round32_def using assms by (rule ieee_round_of_int)

lemma float32_400: "float32_of_int 400 = 400"
  using round32_of_int [of 400] by simp

lemma close_round32:
  assumes "0 < x"
  shows "close_to c32 (round32 x) x"
proof -
  have e: "\<bar>round32 x - x\<bar> \<le> x / 16777216"
    using ieee_round_error [of 24 x] assms by (simp add: round32_def)
  have "round32 x - x \<le> x / 16777216"
    using e by (rule abs_le_D1)
  moreover have "- (round32 x - x) \<le> x / 16777216"
    using e by (rule abs_le_D2)
  ultimately have "round32 x * 16777215 \<le> x * 16777216" "x * 16777215 \<le> round32 x * 16777216"
    using assms by linarith+
  then show ?thesis
    by (simp add: close_to_def c32_def field_simps)
qed

lemma close_sym: "close_to c x y \<Longrightarrow> close_to c y x"
  by (simp add: close_to_def)

lemma close_trans:
  assumes "close_to c x y" "close_to d y z" "0 \<le> c" "0 \<le> d"
  shows "close_to (c * d) x z"
proof -
  from assms have "x \<le> y * c" "y \<le> z * d" "z \<le> y * d" "y \<le> x * c"
    by (simp_all add: close_to_def)
  then have "x \<le> (z * d) * c" "z \<le> (x * c) * d"
    using assms(3,4) by (meson mult_right_mono order_trans)+
  then show ?thesis
    by (simp add: close_to_def mult_ac)
qed

lemma close_div:
  assumes "close_to c a a'" "close_to d b b'" "0 < a" "0 < a'" "0 < b" "0 < b'" "0 < c" "0 < d"
  shows "close_to (c * d) (a / b) (a' / b')"
proof -
  from assms have h: "a \<le> a' * c" "a' \<le> a * c" "b \<le> b' * d" "b' \<le> b * d"
    by (simp_all add: close_to_def)
  have "a * b' \<le> (a' * c) * (b * d)"
    using h(1,4) assms by (intro mult_mono) simp_all
  moreover have "a' * b \<le> (a * c) * (b' * d)"
    using h(2,3) assms by (intro mult_mono) simp_all
  ultimately show ?thesis
    using assms by (simp add: close_to_def field_simps)
qed

lemma close_div_const:
  assumes "close_to c a a'" "0 < k"
  shows "close_to c (a / k) (a' / k)"
  using assms by (simp add: close_to_def field_simps)

lemma close_mult_const:
  assumes "close_to c a a'" "0 < k"
  shows "close_to c (a * k) (a' * k)"
  using assms by (simp add: close_to_def field_simps)

lemma close_mono:
  assumes "close_to c x y" "c \<le> c'" "0 \<le> x" "0 \<le> y"
  shows "close_to c' x y"
proof -
  from assms have "x \<le> y * c" "y \<le> x * c" "y * c \<le> y * c'" "x * c \<le> x * c'"
    by (simp_all add: close_to_def mult_left_mono)
  then show ?thesis
    by (simp add: close_to_def)
qed

lemma c32_facts:
  "0 < c32" "c32 * c32 \<le> 1 + 1 / 2 ^ 21" "c32 * (c32 * (c32 * c32)) \<le> 1 + 1 / 2 ^ 21"
  by (simp_all add: c32_def)

lemma scale_close:
  assumes "0 < w"
  shows "0 < float32_div (float32_of_int w) 400"
    and "close_to (c32 * c32) (float32_div (float32_of_int w) 400) (of_int w / 400)"
proof -
  have wpos: "0 < real_of_int w" using assms by simp
  have apos: "0 < float32_of_int w"
    unfolding float32_of_int_def using wpos by (rule round32_pos)
  have ca: "close_to c32 (float32_of_int w) (of_int w)"
    unfolding float32_of_int_def using wpos by (rule close_round32)
  have q: "0 < float32_of_int w / 400" using apos by simp
  show "0 < float32_div (float32_of_int w) 400"
    unfolding float32_div_def using q by (rule round32_pos)
  have c1: "close_to c32 (float32_div (float32_of_int w) 400) (float32_of_int w / 400)"
    unfolding float32_div_def using q by (rule close_round32)
  have c2: "close_to c32 (float32_of_int w / 400) (of_int w / 400)"
    using ca by (rule close_div_const) simp
  show "close_to (c32 * c32) (float32_div (float32_of_int w) 400) (of_int w / 400)"
    using close_trans [OF c1 c2] c32_facts(1) by simp
qed

lemma scaled_side:
  assumes "0 < w" "0 < h"
      and a: "a = float32_of_int w" and b: "b = float32_of_int h"
      and s: "0 < s" "float32_div b 400 \<le> s" "close_to (c32 * c32) s (of_int w / 400)"
      and r: "r = float32_div b s"
  shows "0 < r" "r \<le> 400 * (1 + 1 / 2 ^ 21)"
    "close_to (1 + 1 / 2 ^ 21) (r * of_int w) (400 * of_int h)"
proof -
  let ?k = "c32 * (c32 * (c32 * c32))"
  have wpos: "0 < real_of_int w" and hpos: "0 < real_of_int h"
    using assms(1,2) by simp_all
  have bpos: "0 < b"
    unfolding b float32_of_int_def using hpos by (rule round32_pos)
  have cb: "close_to c32 b (of_int h)"
    unfolding b float32_of_int_def using hpos by (rule close_round32)
  have q: "0 < b / s"
    using bpos s(1) by simp
  show rpos: "0 < r"
    unfolding r float32_div_def using q by (rule round32_pos)
  have cr: "close_to c32 r (b / s)"
    unfolding r float32_div_def using q by (rule close_round32)
  let ?sY = "float32_div b 400"
  have q4: "0 < b / 400" using bpos by simp
  have sYpos: "0 < ?sY"
    unfolding float32_div_def using q4 by (rule round32_pos)
  have "close_to c32 ?sY (b / 400)"
    unfolding float32_div_def using q4 by (rule close_round32)
  then have "b / 400 \<le> ?sY * c32"
    by (simp add: close_to_def)
  then have "b \<le> 400 * c32 * ?sY"
    by (simp add: field_simps)
  also have "\<dots> \<le> 400 * c32 * s"
    using s(2) c32_facts(1) by (intro mult_left_mono) simp_all
  finally have "b / s \<le> 400 * c32"
    using s(1) by (simp add: field_simps)
  moreover have "r \<le> b / s * c32"
    using cr by (simp add: close_to_def)
  ultimately have "r \<le> 400 * c32 * c32"
    using c32_facts(1) by (meson mult_right_mono order_trans less_imp_le)
  also have "\<dots> = 400 * (c32 * c32)"
    by simp
  also have "\<dots> \<le> 400 * (1 + 1 / 2 ^ 21)"
    using c32_facts(2) by (intro mult_left_mono) simp_all
  finally show "r \<le> 400 * (1 + 1 / 2 ^ 21)" .
  have c3: "close_to (c32 * (c32 * c32)) (b / s) (of_int h / (of_int w / 400))"
    using close_div [OF cb s(3)] bpos hpos s(1) wpos c32_facts(1) by simp
  have "close_to ?k r (of_int h / (of_int w / 400))"
    using close_trans [OF cr c3] c32_facts(1) by simp
  then have "close_to ?k (r * of_int w) (of_int h / (of_int w / 400) * of_int w)"
    using wpos by (rule close_mult_const)
  moreover have "of_int h / (of_int w / 400) * of_int w = 400 * real_of_int h"
    using wpos by simp
  ultimately have "close_to ?k (r * of_int w) (400 * of_int h)"
    by simp
  then show "close_to (1 + 1 / 2 ^ 21) (r * of_int w) (400 * of_int h)"
    using c32_facts(3)
  proof (rule close_mono)
    show "0 \<le> r * real_of_int w" using rpos wpos by simp
    show "0 \<le> 400 * real_of_int h" using hpos by simp
  qed
qed

lemma trunc_le_400:
  assumes "0 < r" "r \<le> 400 * (1 + 1 / 2 ^ 21)"
  shows "trunc r \<le> 400"
proof -
  from assms(2) have "r < 401" by simp
  then have "\<lfloor>r\<rfloor> < 401" by (simp add: floor_less_iff)
  with assms(1) show ?thesis by (simp add: trunc_def)
qed

lemma GetScaledBounds_fits:
  assumes "0 < Dx (Bounds img)" "0 < Dy (Bounds img)"
      and "Dx (Bounds img) \<le> 400" "Dy (Bounds img) \<le> 400"
  shows "GetScaledBounds img = (real_of_int (Dx (Bounds img)), real_of_int (Dy (Bounds img)))"
proof -
  have "\<bar>Dx (Bounds img)\<bar> < 2 ^ 24" "\<bar>Dy (Bounds img)\<bar> < 2 ^ 24"
    using assms by simp_all
  then have "float32_of_int (Dx (Bounds img)) = of_int (Dx (Bounds img))"
    "float32_of_int (Dy (Bounds img)) = of_int (Dy (Bounds img))"
    by (simp_all only: round32_of_int)
  then show ?thesis
    using assms(3,4) by (simp add: GetScaledBounds_def ImageMaxWidth_def ImageMaxHeight_def Let_def)
qed

lemma GetScaledBounds_scaled:
  assumes "0 < Dx (Bounds img)" "0 < Dy (Bounds img)"
      and "\<not> (Dx (Bounds img) \<le> 400 \<and> Dy (Bounds img) \<le> 400)"
      and "GetScaledBounds img = (sx, sy)"
  shows "0 < sx \<and> 0 < sy \<and> (sx = 400 \<or> sy = 400)
       \<and> sx \<le> 400 * (1 + 1 / 2 ^ 21) \<and> sy \<le> 400 * (1 + 1 / 2 ^ 21)
       \<and> close_to (1 + 1 / 2 ^ 21) (sx * of_int (Dy (Bounds img))) (sy * of_int (Dx (Bounds img)))"
proof -
  define w where "w = Dx (Bounds img)"
  define h where "h = Dy (Bounds img)"
  define sX where "sX = float32_div (float32_of_int w) 400"
  define sY where "sY = float32_div (float32_of_int h) 400"
  have pos: "0 < w" "0 < h" using assms(1,2) by (simp_all add: w_def h_def)
  have big: "w > 400 \<or> h > 400" using assms(3) by (auto simp add: w_def h_def)
  note sx = scale_close [OF pos(1), folded sX_def]
  note sy = scale_close [OF pos(2), folded sY_def]
  have g: "(sx, sy) = (if sX > sY then (400, float32_div (float32_of_int h) sX)
                       else (float32_div (float32_of_int w) sY, 400))"
    using big assms(4) [symmetric]
    by (simp add: GetScaledBounds_def ImageMaxWidth_def ImageMaxHeight_def Let_def float32_400
        w_def h_def sX_def sY_def)
  have k: "(400::real) \<le> 400 * (1 + 1 / 2 ^ 21)" by simp
  show ?thesis
  proof (cases "sX > sY")
    case True
    with g have e: "sx = 400" "sy = float32_div (float32_of_int h) sX"
      by simp_all
    have le: "float32_div (float32_of_int h) 400 \<le> sX"
      using True by (simp add: sY_def)
    note r = scaled_side [OF pos refl refl sx(1) le sx(2) e(2)]
    from r(3) have "close_to (1 + 1 / 2 ^ 21) (sx * of_int h) (sy * of_int w)"
      by (simp add: e(1) close_sym)
    with r(1,2) k show ?thesis
      by (simp add: e(1) w_def h_def)
  next
    case False
    with g have e: "sy = 400" "sx = float32_div (float32_of_int w) sY"
      by simp_all
    have le: "float32_div (float32_of_int w) 400 \<le> sY"
      using False by (simp add: sX_def)
    note r = scaled_side [OF pos(2,1) refl refl sy(1) le sy(2) e(2)]
    from r(3) have "close_to (1 + 1 / 2 ^ 21) (sx * of_int h) (sy * of_int w)"
      by (simp add: e(1))
    with r(1,2) k show ?thesis
      by (simp add: e(1) w_def h_def)
  qed
qed


subsection \<open>The crop canvas\<close>

lemma byte_roundtrip:
  "ucast (drop_bit 8 (ucast r OR push_bit 8 (ucast r) :: uint32)) = (r :: uint8)"
  by (rule bit_word_eqI) (auto simp add: bit_simps dest: bit_imp_le_length)

lemma rgba8_of_RGBA_RGBA: "rgba8_of (RGBA_RGBA k) = k"
  by (cases k) (simp only: rgba8_of_def RGBA_RGBA_def prod.case byte_roundtrip)

lemma float64_of_int_exact:
  assumes "0 \<le> w" "w < 2 ^ 53"
  shows "float64_of_int w = of_int w"
proof -
  have "\<bar>w\<bar> < 2 ^ 53" using assms by simp
  then show ?thesis
    unfolding float64_of_int_def round64_def by (rule ieee_round_of_int)
qed

lemma trunc_bounds:
  assumes "0 \<le> w" "w < 2 ^ 53" "0 \<le> r" "r \<le> 1"
  shows "0 \<le> trunc (float64_mul (float64_of_int w) r)"
    "trunc (float64_mul (float64_of_int w) r) \<le> w"
    "trunc (float64_mul (float64_of_int w) r) = \<lfloor>float64_mul (float64_of_int w) r\<rfloor>"
proof -
  let ?x = "real_of_int w * r"
  have m: "float64_mul (float64_of_int w) r = round64 ?x"
    by (simp add: float64_mul_def float64_of_int_exact [OF assms(1,2)])
  have nn: "0 \<le> ?x" using assms(1,3) by simp
  have "?x \<le> real_of_int w * 1"
    using assms(1,4) by (intro mult_left_mono) simp_all
  then have le: "?x \<le> of_int w" by simp
  note b = round64_bounds [OF nn le assms(2)]
  show t: "trunc (float64_mul (float64_of_int w) r) = \<lfloor>float64_mul (float64_of_int w) r\<rfloor>"
    using b(1) by (simp add: m trunc_def)
  show "0 \<le> trunc (float64_mul (float64_of_int w) r)"
    unfolding t using b(1) by (simp add: m)
  have "\<lfloor>round64 ?x\<rfloor> \<le> \<lfloor>real_of_int w\<rfloor>"
    using b(2) by (rule floor_mono)
  then show "trunc (float64_mul (float64_of_int w) r) \<le> w"
    unfolding t by (simp add: m)
qed

lemma clamp_eq: "(if max 0 r > 1 then 1 else max 0 r) = min 1 (max 0 (r::real))"
  by (simp add: min_def max_def)

lemma draw_canvas:
  assumes "0 \<le> e" "e \<le> w" "0 \<le> h"
      and "Bounds src = \<lparr>MinX = 0, MinY = 0, MaxX = w, MaxY = h\<rparr>"
  shows "draw_Draw_Src \<lparr>Rect = \<lparr>MinX = 0, MinY = 0, MaxX = w, MaxY = h\<rparr>, Pix = (\<lambda>_. (0, 0, 0, 0))\<rparr>
           (image_Rect 0 0 e h) src (0, 0) =
         \<lparr>Rect = \<lparr>MinX = 0, MinY = 0, MaxX = w, MaxY = h\<rparr>,
          Pix = (\<lambda>p. if Point_In p \<lparr>MinX = 0, MinY = 0, MaxX = e, MaxY = h\<rparr>
                     then rgba8_of (At src (fst p) (snd p)) else (0, 0, 0, 0))\<rparr>"
proof (cases "e = 0 \<or> h = 0")
  case True
  then show ?thesis
    using assms
    by (auto simp add: draw_Draw_Src_def image_Rect_def Rect_Intersect_def Rect_Add_def
        Rect_Empty_def ZR_def Point_In_def Let_def intro!: ext)
next
  case False
  then have "0 < e" "0 < h" "0 < w" using assms by auto
  then show ?thesis
    using assms
    by (auto simp add: draw_Draw_Src_def image_Rect_def Rect_Intersect_def Rect_Add_def
        Rect_Empty_def ZR_def Point_In_def Let_def intro!: ext)
qed

lemma CropImageFast_canvas_eq:
  assumes "Bounds src = \<lparr>MinX = 0, MinY = 0, MaxX = w, MaxY = h\<rparr>" "0 \<le> w" "w < 2 ^ 53" "0 \<le> h"
      and "CropImageFast_canvas src ratio = Inr c"
  shows "c = \<lparr>Rect = Bounds src,
              Pix = (\<lambda>p. if Point_In p (Bounds src)
                            \<and> fst p < \<lfloor>float64_mul (float64_of_int w) (min 1 (max 0 ratio))\<rfloor>
                         then rgba8_of (At src (fst p) (snd p)) else (0, 0, 0, 0))\<rparr>"
proof -
  let ?r = "min 1 (max 0 ratio)"
  let ?e = "trunc (float64_mul (float64_of_int w) ?r)"
  have r01: "0 \<le> ?r" "?r \<le> 1"
    by simp_all
  note e = trunc_bounds [OF assms(2,3) r01]
  have d: "Dx (Bounds src) = w" "Dy (Bounds src) = h"
    by (simp_all add: assms(1) Dx_def Dy_def)
  have rect: "image_Rect 0 0 w h = \<lparr>MinX = 0, MinY = 0, MaxX = w, MaxY = h\<rparr>"
    using assms(2,4) by (simp add: image_Rect_def)
  from assms(5) have "c = draw_Draw_Src \<lparr>Rect = \<lparr>MinX = 0, MinY = 0, MaxX = w, MaxY = h\<rparr>, Pix = (\<lambda>_. (0, 0, 0, 0))\<rparr>
           (image_Rect 0 0 ?e h) src (0, 0)"
    by (simp add: CropImageFast_canvas_def d rect NewRGBA_def clamp_eq Let_def split: if_splits)
  also have "\<dots> = \<lparr>Rect = \<lparr>MinX = 0, MinY = 0, MaxX = w, MaxY = h\<rparr>,
          Pix = (\<lambda>p. if Point_In p \<lparr>MinX = 0, MinY = 0, MaxX = ?e, MaxY = h\<rparr>
                     then rgba8_of (At src (fst p) (snd p)) else (0, 0, 0, 0))\<rparr>"
    using e(1,2) assms(4,1) by (rule draw_canvas)
  also have "\<dots> = \<lparr>Rect = Bounds src,
              Pix = (\<lambda>p. if Point_In p (Bounds src)
                            \<and> fst p < \<lfloor>float64_mul (float64_of_int w) ?r\<rfloor>
                         then rgba8_of (At src (fst p) (snd p)) else (0, 0, 0, 0))\<rparr>"
    using e(2) by (auto simp add: assms(1) Point_In_def e(3) intro!: ext)
  finally show ?thesis .
qed


subsection \<open>Claims about geometry and cropping\<close>

text \<open>
  Claim C4 as stated, that the retained columns are pixel-identical to the source for
  every image, fails: the canvas is an 8-bit \<^verbatim>\<open>*image.RGBA\<close>, so a source pixel
  with the 16-bit red value \<open>0x1234\<close> is stored as \<open>0x12\<close> and read back as \<open>0x1212\<close>,
  also at ratio 1.
\<close>

theorem C4_deep_colour_counterexample:
  "map_sum id (\<lambda>c. At (RGBA_Image c) 0 0) (CropImageFast_canvas deep_pixel 1)
     = Inr (0x1212, 0, 0, 0xffff)
   \<and> At deep_pixel 0 0 = (0x1234, 0, 0, 0xffff)"
  by code_simp


text \<open>
  Claim C4, amended. For an image whose bounds start at the origin, with width
  \<open>w < 2 ^ 53\<close> and height \<open>h\<close>, \<^verbatim>\<open>CropImageFast\<close>, once \<^verbatim>\<open>image.NewRGBA\<close>
  has returned, builds before rescaling a canvas of the same bounds with \<open>cutX\<close> the integer part of the
  \<^verbatim>\<open>float64\<close> product of \<open>w\<close> and the ratio clamped to \<open>[0, 1]\<close>, \<open>0 \<le> cutX \<le> w\<close>,
  in which every pixel of a column left of \<open>cutX\<close> is the source pixel converted to
  8-bit RGBA (the high byte of each channel) and every other pixel is transparent
  black. Where the source pixel is itself an 8-bit RGBA colour the canvas pixel reads
  back identical to it. A ratio of at most 0 gives \<open>cutX = 0\<close>, a blank canvas, and a
  ratio of at least 1 gives \<open>cutX = w\<close>, a copy of every column.
\<close>

theorem C4_crop_canvas:
  assumes "Bounds src = \<lparr>MinX = 0, MinY = 0, MaxX = w, MaxY = h\<rparr>"
      and "0 \<le> w" and "w < 2 ^ 53" and "0 \<le> h"
      and "CropImageFast_canvas src ratio = Inr c"
      and "cutX = \<lfloor>float64_mul (float64_of_int w) (min 1 (max 0 ratio))\<rfloor>"
  shows "Rect c = Bounds src
       \<and> 0 \<le> cutX \<and> cutX \<le> w
       \<and> (\<forall>x y. Point_In (x, y) (Bounds src) \<longrightarrow>
            Pix c (x, y) = (if x < cutX then rgba8_of (At src x y) else (0, 0, 0, 0)))
       \<and> (\<forall>x y k. Point_In (x, y) (Bounds src) \<and> x < cutX \<and> At src x y = RGBA_RGBA k \<longrightarrow>
            At (RGBA_Image c) x y = At src x y)
       \<and> (ratio \<le> 0 \<longrightarrow> cutX = 0) \<and> (1 \<le> ratio \<longrightarrow> cutX = w)"
proof -
  let ?r = "min 1 (max 0 ratio)"
  have r01: "0 \<le> ?r" "?r \<le> 1"
    by simp_all
  note e = trunc_bounds [OF assms(2,3) r01]
  note c = CropImageFast_canvas_eq [OF assms(1-5)]
  have cut: "0 \<le> cutX" "cutX \<le> w"
    using e by (simp_all add: assms(6))
  have rect: "Rect c = Bounds src"
    by (subst c) simp
  have pix: "Pix c (x, y) = (if x < cutX then rgba8_of (At src x y) else (0, 0, 0, 0))"
    if "Point_In (x, y) (Bounds src)" for x y
    using that by (subst c) (simp add: assms(6))
  have same: "At (RGBA_Image c) x y = At src x y"
    if "Point_In (x, y) (Bounds src)" "x < cutX" "At src x y = RGBA_RGBA k" for x y k
    using that by (simp add: RGBA_Image_def rect pix rgba8_of_RGBA_RGBA)
  have w: "float64_of_int w = of_int w"
    using assms(2,3) by (rule float64_of_int_exact)
  have zero: "cutX = 0" if "ratio \<le> 0"
    using that by (simp add: assms(6) max_def float64_mul_def round64_def ieee_round_def)
  have full: "cutX = w" if "1 \<le> ratio"
  proof -
    from that have "?r = 1" by (simp add: max_def min_def)
    then have "float64_mul (float64_of_int w) ?r = round64 (of_int w)"
      by (simp add: float64_mul_def w)
    also have "\<dots> = of_int w"
      using w by (simp add: float64_of_int_def)
    finally show ?thesis
      by (simp add: assms(6))
  qed
  from rect cut pix same zero full show ?thesis
    by blast
qed


text \<open>
  Witness for the amended C4: the two-pixel image at ratio one half keeps its left
  pixel, opaque black, and leaves the right one transparent.
\<close>

theorem C4_crop_canvas_witness:
  "Bounds black_white = \<lparr>MinX = 0, MinY = 0, MaxX = 2, MaxY = 1\<rparr>
   \<and> (\<exists>c. CropImageFast_canvas black_white (1 / 2) = Inr c
          \<and> Rect c = Bounds black_white
          \<and> Pix c (0, 0) = (0, 0, 0, 255) \<and> Pix c (1, 0) = (0, 0, 0, 0))"
proof -
  have b: "Bounds black_white = \<lparr>MinX = 0, MinY = 0, MaxX = 2, MaxY = 1\<rparr>"
    by (simp add: black_white_def image_of_rows_def image_Rect_def Let_def)
  have "\<exists>c. CropImageFast_canvas black_white (1 / 2) = Inr c"
    by (simp add: CropImageFast_canvas_def b Dx_def Dy_def NewRGBA_def mul3NonNeg_def
        image_Rect_def Let_def)
  then obtain c where c: "CropImageFast_canvas black_white (1 / 2) = Inr c" ..
  have cut: "(1 :: int) = \<lfloor>float64_mul (float64_of_int 2) (min 1 (max 0 (1 / 2)))\<rfloor>"
    by code_simp
  note r = C4_crop_canvas [OF b _ _ _ c cut]
  have p0: "Point_In (0, 0) (Bounds black_white)" and p1: "Point_In (1, 0) (Bounds black_white)"
    by (simp_all add: b Point_In_def)
  have "rgba8_of (At black_white 0 0) = (0, 0, 0, 255)"
    by (simp add: black_white_def image_of_rows_def image_Rect_def Point_In_def black_def
        rgba8_of_def Let_def)
  with r p0 p1 have "Rect c = Bounds black_white" "Pix c (0, 0) = (0, 0, 0, 255)"
    "Pix c (1, 0) = (0, 0, 0, 0)"
    by simp_all
  with b c show ?thesis
    by simp
qed


text \<open>
  Claim C5 as stated fails in two places. An image with the box's aspect ratio has both
  dimensions equal to their bounds, not exactly one: 800 by 800 is scaled to 400 by
  400. And a \<^verbatim>\<open>float32\<close> result can exceed 400 by a rounding error: for 418 by 418
  the scale factor is rounded down and the quotient is rounded up to the next
  \<^verbatim>\<open>float32\<close> above 400.
\<close>

theorem C5_square_counterexample:
  "GetScaledBounds (solid_image 800 800 black) = (400, 400)
   \<and> GetScaledBounds (solid_image 418 418 black) = (400 + 1 / 32768, 400)"
  by code_simp


text \<open>
  Claim C5, amended. For positive width and height, \<^verbatim>\<open>GetScaledBounds\<close> returns them
  unchanged when both are at most 400. Otherwise both results are positive, at least
  one of them is exactly 400, each is at most \<open>400 * (1 + 1 / 2 ^ 21)\<close>, so that its
  integer part is at most 400, and the aspect ratio is preserved up to rounding: the
  products \<open>sx * h\<close> and \<open>sy * w\<close> are within the factor \<open>1 + 1 / 2 ^ 21\<close> of each other.
\<close>

theorem C5_scaled_bounds:
  assumes "0 < Dx (Bounds img)" and "0 < Dy (Bounds img)"
      and "GetScaledBounds img = (sx, sy)"
  shows "(Dx (Bounds img) \<le> 400 \<and> Dy (Bounds img) \<le> 400 \<longrightarrow>
            sx = real_of_int (Dx (Bounds img)) \<and> sy = real_of_int (Dy (Bounds img)))
       \<and> (\<not> (Dx (Bounds img) \<le> 400 \<and> Dy (Bounds img) \<le> 400) \<longrightarrow>
            0 < sx \<and> 0 < sy \<and> (sx = 400 \<or> sy = 400)
          \<and> sx \<le> 400 * (1 + 1 / 2 ^ 21) \<and> sy \<le> 400 * (1 + 1 / 2 ^ 21)
          \<and> trunc sx \<le> 400 \<and> trunc sy \<le> 400
          \<and> close_to (1 + 1 / 2 ^ 21)
                (sx * real_of_int (Dy (Bounds img))) (sy * real_of_int (Dx (Bounds img))))"
proof (intro conjI impI)
  assume fits: "Dx (Bounds img) \<le> 400 \<and> Dy (Bounds img) \<le> 400"
  then have "GetScaledBounds img = (real_of_int (Dx (Bounds img)), real_of_int (Dy (Bounds img)))"
    using assms(1,2) by (simp add: GetScaledBounds_fits)
  with assms(3) show "sx = real_of_int (Dx (Bounds img))" "sy = real_of_int (Dy (Bounds img))"
    by simp_all
next
  assume big: "\<not> (Dx (Bounds img) \<le> 400 \<and> Dy (Bounds img) \<le> 400)"
  note r = GetScaledBounds_scaled [OF assms(1,2) big assms(3)]
  from r show "0 < sx" "0 < sy" "sx = 400 \<or> sy = 400"
    "sx \<le> 400 * (1 + 1 / 2 ^ 21)" "sy \<le> 400 * (1 + 1 / 2 ^ 21)"
    "close_to (1 + 1 / 2 ^ 21)
       (sx * real_of_int (Dy (Bounds img))) (sy * real_of_int (Dx (Bounds img)))"
    by simp_all
  from r show "trunc sx \<le> 400" "trunc sy \<le> 400"
    by (simp_all add: trunc_le_400)
qed


text \<open>
  Witness for the amended C5: 800 by 600 is scaled to 400 by 300.
\<close>

theorem C5_scaled_bounds_witness:
  "0 < Dx (Bounds (solid_image 800 600 black)) \<and> 0 < Dy (Bounds (solid_image 800 600 black))
   \<and> GetScaledBounds (solid_image 800 600 black) = (400, 300)
   \<and> trunc 400 \<le> 400 \<and> trunc 300 \<le> 400
   \<and> close_to (1 + 1 / 2 ^ 21)
        (400 * real_of_int (Dy (Bounds (solid_image 800 600 black))))
        (300 * real_of_int (Dx (Bounds (solid_image 800 600 black))))"
proof -
  have d: "0 < Dx (Bounds (solid_image 800 600 black))" "0 < Dy (Bounds (solid_image 800 600 black))"
    by code_simp+
  have g: "GetScaledBounds (solid_image 800 600 black) = (400, 300)"
    by code_simp
  have big: "\<not> (Dx (Bounds (solid_image 800 600 black)) \<le> 400 \<and> Dy (Bounds (solid_image 800 600 black)) \<le> 400)"
    by code_simp
  from C5_scaled_bounds [OF d g] big d g show ?thesis
    by simp
qed


section \<open>Properties of the codec\<close>

text \<open>
  When the conversion succeeds, the temporary file is gone after \<^verbatim>\<open>LoadImage\<close>,
  whether or not the decode step succeeds.
\<close>

lemma LoadImage_converted_removes:
  assumes "filepath_Ext path = ''.jxl''" and "env ''djxl'' = Some prog"
      and "snd (prog [path, path @ ''.converted.png''] fs) = 0"
  shows "snd (LoadImage env decode path fs) (path @ ''.converted.png'') = None"
  using assms
  by (auto simp add: LoadImage_def exec_Command_def Cmd_Run_def Let_def os_Remove_def split: prod.splits)


text \<open>
  Claim C6 says that the temporary file is removed also after a failed conversion. The
  code returns the error of \<^verbatim>\<open>cmd.Run\<close> before the removal is deferred: with a
  converter that writes part of the output and exits with status 1, \<^verbatim>\<open>LoadImage\<close>
  returns that error and the partial file \<^verbatim>\<open>a.jxl.converted.png\<close> is still there.
\<close>

theorem C6_failed_conversion_keeps_file:
  "fst (LoadImage [''djxl'' \<mapsto> failing_djxl] no_decoder ''a.jxl'' [''a.jxl'' \<mapsto> ''corrupt'']) = Inl (exec_ExitError 1)
   \<and> snd (LoadImage [''djxl'' \<mapsto> failing_djxl] no_decoder ''a.jxl'' [''a.jxl'' \<mapsto> ''corrupt'']) ''a.jxl.converted.png'' = Some ''partial''"
  by (simp add: LoadImage_def exec_Command_def Cmd_Run_def Let_def filepath_Ext_def failing_djxl_def)


text \<open>
  Claim C7. For a \<^verbatim>\<open>.jxl\<close> path, when no \<^verbatim>\<open>djxl\<close> executable is found,
  \<^verbatim>\<open>LoadImage\<close> returns the not-found error that \<^verbatim>\<open>exec.Command\<close> recorded at
  the lookup, no process having been started, and leaves the file system as it was.
\<close>

theorem C7_tool_absent:
  assumes "filepath_Ext path = ''.jxl''" and "env ''djxl'' = None"
  shows "LoadImage env decode path fs = (Inl exec_ErrNotFound, fs)"
  using assms by (simp add: LoadImage_def exec_Command_def Cmd_Run_def Let_def)


text \<open>
  Witness for C7: \<^verbatim>\<open>photo.jxl\<close> with an empty \<^verbatim>\<open>PATH\<close>.
\<close>

theorem C7_tool_absent_witness:
  "filepath_Ext ''photo.jxl'' = ''.jxl'' \<and> (Map.empty :: environment) ''djxl'' = None
   \<and> LoadImage Map.empty no_decoder ''photo.jxl'' [''photo.jxl'' \<mapsto> ''data'']
       = (Inl exec_ErrNotFound, [''photo.jxl'' \<mapsto> ''data''])"
proof -
  have e: "filepath_Ext ''photo.jxl'' = ''.jxl''"
    by (simp add: filepath_Ext_def)
  have n: "(Map.empty :: environment) ''djxl'' = None"
    by simp
  from C7_tool_absent [OF e n] e n show ?thesis
    by simp
qed

end
